theory Spec2Isabelle
  imports
    Main
    "HOL-Library.Word"
    "HOL-Library.Char_ord"
    "HOL-Library.List_Lexorder"
    "HOL-Library.Monad_Syntax"
begin

section \<open>The component model of GameObject\<close>

text \<open>A raw pointer is an address or \<open>nullptr\<close> (\<open>None\<close>).\<close>

type_synonym handle = "nat option"

text \<open>The twelve component classes that GameObject.cpp instantiates its templates for.\<close>

datatype ctype =
  Transform | Mesh | MeshRenderer | Light | Camera | Skybox | RigidBody
  | Collider | MeshCollider | Hinge | Script | LineRenderer

text \<open>
  What the Serializer streams: a length-prefixed string, a fixed-width integer (32 bits,
  read back signed or unsigned), a boolean, a block of bytes.
\<close>

datatype item = SStr string | SInt "32 word" | SBool bool | SBytes "8 word list"

text \<open>
  The component classes themselves (Transform.cpp, Camera.cpp, ... and their headers)
  are not part of the sources at hand, so what they contribute is a parameter: which
  class derives from which other component class, the fields a constructor leaves, and
  the bodies of the virtual methods, each acting on the component's own fields
  \<open>'p\<close>. \<open>Save_of\<close> gives the items the component appends to the Serializer's
  stream, \<open>Load_of\<close> consumes items from it (\<open>None\<close>: the read failed).
\<close>

record 'p Classes =
  derives :: "ctype \<Rightarrow> ctype \<Rightarrow> bool"
  ctor_of :: "ctype \<Rightarrow> 'p"
  Initialize_of :: "ctype \<Rightarrow> 'p \<Rightarrow> 'p"
  Update_of :: "ctype \<Rightarrow> 'p \<Rightarrow> 'p"
  Save_of :: "ctype \<Rightarrow> 'p \<Rightarrow> item list"
  Load_of :: "ctype \<Rightarrow> 'p \<Rightarrow> item list \<Rightarrow> ('p \<times> item list) option"

text \<open>
  An IComponent object: the address \<open>new\<close> gave it, its dynamic class, the members
  AddComponent fills in, and its own fields. \<open>Initialize_calls\<close> and
  \<open>Update_calls\<close> count the calls of the two hooks on this object.
\<close>

record 'p IComponent =
  addr :: nat
  dyn_type :: ctype
  g_gameObject :: handle
  g_transform :: handle
  g_d3d11Device :: handle
  g_meshPool :: handle
  g_scene :: handle
  g_materialPool :: handle
  g_texturePool :: handle
  g_shaderPool :: handle
  g_physics :: handle
  g_scriptEngine :: handle
  Initialize_calls :: nat
  Update_calls :: nat
  c_fields :: 'p

text \<open>
  The GameObject. \<open>m_components\<close> is the \<open>std::map<string, IComponent*>\<close>: the
  entries in the order the map iterates them (ascending keys). The map owns the objects
  it points to (each is created by \<open>new\<close> on insertion and deleted on erasure), so an
  entry carries the object itself. \<open>self\<close> is the address of the GameObject
  (\<open>this\<close>).
\<close>

record 'p GameObject =
  self :: nat
  m_ID :: string
  m_name :: string
  m_isActive :: bool
  m_hierarchyVisibility :: bool
  m_components :: "(string \<times> 'p IComponent) list"
  m_transform :: handle
  m_D3D11Device :: handle
  m_scene :: handle
  m_meshPool :: handle
  m_materialPool :: handle
  m_texturePool :: handle
  m_shaderPool :: handle
  m_physics :: handle
  m_scriptEngine :: handle

text \<open>
  What a GameObject works on besides itself: the free store (\<open>next_addr\<close>, the address
  the next \<open>new\<close> returns; \<open>freed\<close>, the addresses deleted so far), the
  GameObjectPool singleton with the collaborators it hands out, the receivers of the
  \<open>MakeDirty()\<close> calls so far, the Serializer's stream (\<open>out\<close>: written so far,
  \<open>inp\<close>: still to read), and the log.
\<close>

record Engine =
  next_addr :: nat
  freed :: "nat list"
  pool :: "nat list"
  p_D3D11Device :: handle
  p_scene :: handle
  p_meshPool :: handle
  p_materialPool :: handle
  p_texturePool :: handle
  p_shaderPool :: handle
  p_physics :: handle
  p_scriptEngine :: handle
  MakeDirty_calls :: "handle list"
  out :: "item list"
  inp :: "item list"
  log :: "string list"

subsection \<open>Serializer\<close>

text \<open>
  Modelled from the spec: the Serializer (IO/Serializer.h) is not under src/. Section 4.3:
  the primitives are a fixed-width integer, a boolean and a length-prefixed string, and
  what is written in a given order is read back in the same order; section 7 (d): a read
  past the data written fails. A read that does not find an item of its kind is
  \<open>None\<close>.
\<close>

definition SaveSTR :: "string \<Rightarrow> Engine \<Rightarrow> Engine" where
  "SaveSTR v e = e\<lparr>out := out e @ [SStr v]\<rparr>"

definition SaveInt :: "32 word \<Rightarrow> Engine \<Rightarrow> Engine" where
  "SaveInt v e = e\<lparr>out := out e @ [SInt v]\<rparr>"

definition SaveBool :: "bool \<Rightarrow> Engine \<Rightarrow> Engine" where
  "SaveBool v e = e\<lparr>out := out e @ [SBool v]\<rparr>"

definition LoadSTR :: "Engine \<Rightarrow> (string \<times> Engine) option" where
  "LoadSTR e = (case inp e of SStr v # rest \<Rightarrow> Some (v, e\<lparr>inp := rest\<rparr>) | _ \<Rightarrow> None)"

definition LoadInt :: "Engine \<Rightarrow> (32 word \<times> Engine) option" where
  "LoadInt e = (case inp e of SInt v # rest \<Rightarrow> Some (v, e\<lparr>inp := rest\<rparr>) | _ \<Rightarrow> None)"

definition LoadBool :: "Engine \<Rightarrow> (bool \<times> Engine) option" where
  "LoadBool e = (case inp e of SBool v # rest \<Rightarrow> Some (v, e\<lparr>inp := rest\<rparr>) | _ \<Rightarrow> None)"

subsection \<open>std::string and std::map\<close>

text \<open>\<open>find_first_of\<close>: the first position holding one of the characters; \<open>None\<close> is \<open>npos\<close>.\<close>

fun find_first_of :: "string \<Rightarrow> string \<Rightarrow> nat option" where
  "find_first_of [] cs = None"
| "find_first_of (x # xs) cs =
     (if x \<in> set cs then Some 0 else map_option Suc (find_first_of xs cs))"

text \<open>\<open>pos + 1\<close> on \<open>size_t\<close>: \<open>npos\<close> is the largest value, so \<open>npos + 1\<close> wraps to 0.\<close>

definition pos_plus_1 :: "nat option \<Rightarrow> nat" where
  "pos_plus_1 pos = (case pos of None \<Rightarrow> 0 | Some i \<Rightarrow> Suc i)"

text \<open>
  \<open>substr(pos)\<close>: the rest of the string from \<open>pos\<close>. It throws for \<open>pos > size()\<close>,
  which \<open>find_first_of(...) + 1\<close> never is.
\<close>

definition substr :: "string \<Rightarrow> nat \<Rightarrow> string" where
  "substr s pos = drop pos s"

text \<open>
  \<open>typeid(Type).name()\<close> as the compiler the file is written for prints it (the explicit
  instantiations are \<open>__declspec(dllexport)\<close>): the word \<open>class\<close>, a blank, the name.
\<close>

fun type_name :: "ctype \<Rightarrow> string" where
  "type_name Transform = ''class Transform''"
| "type_name Mesh = ''class Mesh''"
| "type_name MeshRenderer = ''class MeshRenderer''"
| "type_name Light = ''class Light''"
| "type_name Camera = ''class Camera''"
| "type_name Skybox = ''class Skybox''"
| "type_name RigidBody = ''class RigidBody''"
| "type_name Collider = ''class Collider''"
| "type_name MeshCollider = ''class MeshCollider''"
| "type_name Hinge = ''class Hinge''"
| "type_name Script = ''class Script''"
| "type_name LineRenderer = ''class LineRenderer''"

text \<open>The key AddComponent derives: the type name with the word "class" removed.\<close>

definition type_str :: "ctype \<Rightarrow> string" where
  "type_str T =
     (let typeStr = type_name T
      in substr typeStr (pos_plus_1 (find_first_of typeStr [CHR '' '', CHR 0x09])))"

text \<open>
  \<open>std::map::insert\<close>: the entry goes where the keys stay ascending; a key that is
  present keeps its entry and nothing is inserted.
\<close>

fun map_insert :: "string \<Rightarrow> 'v \<Rightarrow> (string \<times> 'v) list \<Rightarrow> (string \<times> 'v) list" where
  "map_insert k v [] = [(k, v)]"
| "map_insert k v ((k', v') # rest) =
     (if k = k' then (k', v') # rest
      else if k < k' then (k, v) # (k', v') # rest
      else (k', v') # map_insert k v rest)"

text \<open>
  An assignment through \<open>m_components[typeStr]->\<close>: the object under the key changes.
  (On a key that is absent \<open>operator[]\<close> would insert a null pointer; AddComponent
  uses it only after the insertion.)
\<close>

fun map_at :: "string \<Rightarrow> ('v \<Rightarrow> 'v) \<Rightarrow> (string \<times> 'v) list \<Rightarrow> (string \<times> 'v) list" where
  "map_at k f [] = []"
| "map_at k f ((k', v') # rest) =
     (if k = k' then (k', f v') # rest else (k', v') # map_at k f rest)"

subsection \<open>GetComponent, HasComponent, AddComponent, RemoveComponent\<close>

text \<open>\<open>dynamic_cast<Type*>(component) != nullptr\<close>: the object is a Type or of a class derived from it.\<close>

definition dynamic_cast :: "'p Classes \<Rightarrow> ctype \<Rightarrow> 'p IComponent \<Rightarrow> bool" where
  "dynamic_cast K T c = (dyn_type c = T \<or> derives K (dyn_type c) T)"

fun GetComponent_scan ::
  "'p Classes \<Rightarrow> ctype \<Rightarrow> (string \<times> 'p IComponent) list \<Rightarrow> handle" where
  "GetComponent_scan K T [] = None"
| "GetComponent_scan K T ((k, component) # it) =
     (if dynamic_cast K T component then Some (addr component)
      else GetComponent_scan K T it)"

definition GetComponent :: "'p Classes \<Rightarrow> ctype \<Rightarrow> 'p GameObject \<Rightarrow> handle" where
  "GetComponent K T g = GetComponent_scan K T (m_components g)"

definition HasComponent :: "'p Classes \<Rightarrow> ctype \<Rightarrow> 'p GameObject \<Rightarrow> bool" where
  "HasComponent K T g = (if GetComponent K T g = None then False else True)"

definition GetTransform :: "'p GameObject \<Rightarrow> handle" where
  "GetTransform g = m_transform g"

text \<open>\<open>new Type\<close>: a fresh address and the object the constructor leaves.\<close>

definition new_component :: "'p Classes \<Rightarrow> ctype \<Rightarrow> Engine \<Rightarrow> 'p IComponent \<times> Engine" where
  "new_component K T e =
     (\<lparr>addr = next_addr e, dyn_type = T,
       g_gameObject = None, g_transform = None, g_d3d11Device = None, g_meshPool = None,
       g_scene = None, g_materialPool = None, g_texturePool = None, g_shaderPool = None,
       g_physics = None, g_scriptEngine = None,
       Initialize_calls = 0, Update_calls = 0, c_fields = ctor_of K T\<rparr>,
      e\<lparr>next_addr := Suc (next_addr e)\<rparr>)"

text \<open>The ten assignments of AddComponent to the new entry, in the order of the source.\<close>

definition inject :: "'p GameObject \<Rightarrow> 'p IComponent \<Rightarrow> 'p IComponent" where
  "inject g c =
     c\<lparr>g_gameObject := Some (self g),
       g_transform := GetTransform g,
       g_d3d11Device := m_D3D11Device g,
       g_meshPool := m_meshPool g,
       g_scene := m_scene g,
       g_materialPool := m_materialPool g,
       g_texturePool := m_texturePool g,
       g_shaderPool := m_shaderPool g,
       g_physics := m_physics g,
       g_scriptEngine := m_scriptEngine g\<rparr>"

text \<open>A call of the virtual \<open>Initialize()\<close>, \<open>Update()\<close> on an object.\<close>

definition call_Initialize :: "'p Classes \<Rightarrow> 'p IComponent \<Rightarrow> 'p IComponent" where
  "call_Initialize K c =
     c\<lparr>Initialize_calls := Suc (Initialize_calls c),
       c_fields := Initialize_of K (dyn_type c) (c_fields c)\<rparr>"

definition call_Update :: "'p Classes \<Rightarrow> 'p IComponent \<Rightarrow> 'p IComponent" where
  "call_Update K c =
     c\<lparr>Update_calls := Suc (Update_calls c),
       c_fields := Update_of K (dyn_type c) (c_fields c)\<rparr>"

text \<open>\<open>m_scene->MakeDirty()\<close>: the call is recorded with its receiver.\<close>

definition MakeDirty :: "handle \<Rightarrow> Engine \<Rightarrow> Engine" where
  "MakeDirty scene e = e\<lparr>MakeDirty_calls := MakeDirty_calls e @ [scene]\<rparr>"

definition AddComponent ::
  "'p Classes \<Rightarrow> ctype \<Rightarrow> Engine \<Rightarrow> 'p GameObject \<Rightarrow> handle \<times> Engine \<times> 'p GameObject" where
  "AddComponent K T e g =
     (if HasComponent K T g then (GetComponent K T g, e, g)
      else
        let typeStr = type_str T;
            (component, e1) = new_component K T e;
            g1 = g\<lparr>m_components := map_insert typeStr component (m_components g)\<rparr>;
            g2 = g1\<lparr>m_components := map_at typeStr (inject g1) (m_components g1)\<rparr>;
            g3 = g2\<lparr>m_components := map_at typeStr (call_Initialize K) (m_components g2)\<rparr>;
            e2 = MakeDirty (m_scene g3) e1
        in (GetComponent K T g3, e2, g3))"

text \<open>
  The loop of RemoveComponent: the first entry the cast accepts is deleted and erased,
  and the loop returns. The result is the deleted object with the entries that remain,
  or \<open>None\<close> when the loop runs to the end.
\<close>

fun RemoveComponent_scan ::
  "'p Classes \<Rightarrow> ctype \<Rightarrow> (string \<times> 'p IComponent) list
    \<Rightarrow> ('p IComponent \<times> (string \<times> 'p IComponent) list) option" where
  "RemoveComponent_scan K T [] = None"
| "RemoveComponent_scan K T ((k, component) # it) =
     (if dynamic_cast K T component then Some (component, it)
      else (case RemoveComponent_scan K T it of
              None \<Rightarrow> None
            | Some (d, rest) \<Rightarrow> Some (d, (k, component) # rest)))"

definition RemoveComponent ::
  "'p Classes \<Rightarrow> ctype \<Rightarrow> Engine \<Rightarrow> 'p GameObject \<Rightarrow> Engine \<times> 'p GameObject" where
  "RemoveComponent K T e g =
     (case RemoveComponent_scan K T (m_components g) of
        None \<Rightarrow> (e, g)
      | Some (component, rest) \<Rightarrow>
          (MakeDirty (m_scene g) (e\<lparr>freed := freed e @ [addr component]\<rparr>),
           g\<lparr>m_components := rest\<rparr>))"

subsection \<open>Construction, Initialize, Update and the accessors\<close>

definition Initialize ::
  "handle \<Rightarrow> handle \<Rightarrow> handle \<Rightarrow> handle \<Rightarrow> handle \<Rightarrow> handle \<Rightarrow> handle \<Rightarrow> handle
    \<Rightarrow> 'p GameObject \<Rightarrow> 'p GameObject" where
  "Initialize d3d11Device scene meshPool materialPool texturePool shaderPool physics
      scriptEngine g =
     g\<lparr>m_D3D11Device := d3d11Device,
       m_scene := scene,
       m_meshPool := meshPool,
       m_materialPool := materialPool,
       m_texturePool := texturePool,
       m_shaderPool := shaderPool,
       m_physics := physics,
       m_scriptEngine := scriptEngine\<rparr>"

text \<open>
  Modelled from the spec: GameObjectPool (Pools/GameObjectPool.h) is not under src/.
  Section 4.1: every new object registers itself in the process-wide pool of live
  objects; section 6: every component addition requires the collaborator handles to be
  set already, and the constructor adds the transform right after registering, so the
  pool hands its collaborators to the object (through \<open>Initialize\<close>) as it registers it.
\<close>

definition AddGameObjectToPool :: "Engine \<Rightarrow> 'p GameObject \<Rightarrow> Engine \<times> 'p GameObject" where
  "AddGameObjectToPool e g =
     (e\<lparr>pool := pool e @ [self g]\<rparr>,
      Initialize (p_D3D11Device e) (p_scene e) (p_meshPool e) (p_materialPool e)
        (p_texturePool e) (p_shaderPool e) (p_physics e) (p_scriptEngine e) g)"

text \<open>
  The constructor, for an object at address \<open>this\<close>. \<open>guid\<close> is what the macro
  \<open>GENERATE_GUID\<close> (Core/GUIDGenerator.h, not under src/) yields. \<open>raw\<close> is the
  storage the object is built in: the strings and the map start empty, every other
  member holds what the storage held until it is assigned. So \<open>AddComponent<Transform>()\<close>
  copies an indeterminate \<open>m_transform\<close> into the transform's \<open>g_transform\<close>.
\<close>

definition GameObject_GameObject ::
  "'p Classes \<Rightarrow> string \<Rightarrow> nat \<Rightarrow> 'p GameObject \<Rightarrow> Engine \<Rightarrow> Engine \<times> 'p GameObject" where
  "GameObject_GameObject K guid this_addr raw e =
     (let g = raw\<lparr>self := this_addr, m_ID := [], m_name := [], m_components := []\<rparr>;
          g = g\<lparr>m_ID := guid\<rparr>;
          g = g\<lparr>m_name := ''GameObject''\<rparr>;
          g = g\<lparr>m_isActive := True\<rparr>;
          g = g\<lparr>m_hierarchyVisibility := True\<rparr>;
          (e, g) = AddGameObjectToPool e g;
          (transform, e, g) = AddComponent K Transform e g
      in (e, g\<lparr>m_transform := transform\<rparr>))"

fun Update_loop :: "'p Classes \<Rightarrow> (string \<times> 'p IComponent) list \<Rightarrow> (string \<times> 'p IComponent) list" where
  "Update_loop K [] = []"
| "Update_loop K ((k, component) # it) = (k, call_Update K component) # Update_loop K it"

definition Update :: "'p Classes \<Rightarrow> 'p GameObject \<Rightarrow> 'p GameObject" where
  "Update K g =
     (if \<not> m_isActive g then g
      else g\<lparr>m_components := Update_loop K (m_components g)\<rparr>)"

definition GetName :: "'p GameObject \<Rightarrow> string" where
  "GetName g = m_name g"

definition SetName :: "string \<Rightarrow> 'p GameObject \<Rightarrow> 'p GameObject" where
  "SetName name g = g\<lparr>m_name := name\<rparr>"

definition GetID :: "'p GameObject \<Rightarrow> string" where
  "GetID g = m_ID g"

definition SetID :: "string \<Rightarrow> 'p GameObject \<Rightarrow> 'p GameObject" where
  "SetID ID g = g\<lparr>m_ID := ID\<rparr>"

definition SetActive :: "bool \<Rightarrow> 'p GameObject \<Rightarrow> 'p GameObject" where
  "SetActive active g = g\<lparr>m_isActive := active\<rparr>"

definition IsActive :: "'p GameObject \<Rightarrow> bool" where
  "IsActive g = m_isActive g"

definition SetHierarchyVisibility :: "bool \<Rightarrow> 'p GameObject \<Rightarrow> 'p GameObject" where
  "SetHierarchyVisibility v g = g\<lparr>m_hierarchyVisibility := v\<rparr>"

definition IsVisibleInHierarchy :: "'p GameObject \<Rightarrow> bool" where
  "IsVisibleInHierarchy g = m_hierarchyVisibility g"

subsection \<open>Save and Load\<close>

text \<open>\<open>it->second->Save()\<close>: the component appends its items to the stream.\<close>

definition call_Save :: "'p Classes \<Rightarrow> 'p IComponent \<Rightarrow> Engine \<Rightarrow> Engine" where
  "call_Save K c e = e\<lparr>out := out e @ Save_of K (dyn_type c) (c_fields c)\<rparr>"

fun Save_loop :: "'p Classes \<Rightarrow> (string \<times> 'p IComponent) list \<Rightarrow> Engine \<Rightarrow> Engine" where
  "Save_loop K [] e = e"
| "Save_loop K ((k, component) # it) e = Save_loop K it (call_Save K component (SaveSTR k e))"

definition Save :: "'p Classes \<Rightarrow> Engine \<Rightarrow> 'p GameObject \<Rightarrow> Engine" where
  "Save K e g =
     (let e = SaveSTR (m_ID g) e;
          e = SaveSTR (m_name g) e;
          e = SaveBool (m_isActive g) e;
          e = SaveBool (m_hierarchyVisibility g) e;
          e = SaveInt (of_nat (length (m_components g))) e
      in Save_loop K (m_components g) e)"

text \<open>
  \<open>AddComponent<Type>()->Load()\<close>: the virtual \<open>Load()\<close> of the object the pointer
  leads to reads the object's fields from the stream. A null pointer, or one that leads
  to no component of the object, ends the run (\<open>None\<close>).
\<close>

definition call_Load ::
  "'p Classes \<Rightarrow> handle \<Rightarrow> Engine \<Rightarrow> 'p GameObject \<Rightarrow> (Engine \<times> 'p GameObject) option" where
  "call_Load K p e g =
     (case p of
        None \<Rightarrow> None
      | Some a \<Rightarrow>
          (case find (\<lambda>(k, c). addr c = a) (m_components g) of
             None \<Rightarrow> None
           | Some (k, c) \<Rightarrow>
               (case Load_of K (dyn_type c) (c_fields c) (inp e) of
                  None \<Rightarrow> None
                | Some (f, rest) \<Rightarrow>
                    Some (e\<lparr>inp := rest\<rparr>,
                          g\<lparr>m_components :=
                              map (\<lambda>(k', c'). if addr c' = a then (k', c'\<lparr>c_fields := f\<rparr>)
                                              else (k', c'))
                                (m_components g)\<rparr>))))"

definition AddComponent_Load ::
  "'p Classes \<Rightarrow> ctype \<Rightarrow> Engine \<Rightarrow> 'p GameObject \<Rightarrow> (Engine \<times> 'p GameObject) option" where
  "AddComponent_Load K T e g =
     (case AddComponent K T e g of (p, e1, g1) \<Rightarrow> call_Load K p e1 g1)"

text \<open>The twelve \<open>if (typeStr == "...")\<close> statements of LoadCompFromTypeStr, in their order.\<close>

definition dispatch_table :: "(string \<times> ctype) list" where
  "dispatch_table =
     [(''Transform'', Transform), (''Mesh'', Mesh), (''MeshRenderer'', MeshRenderer),
      (''Light'', Light), (''Camera'', Camera), (''Skybox'', Skybox),
      (''RigidBody'', RigidBody), (''Collider'', Collider),
      (''MeshCollider'', MeshCollider), (''Hinge'', Hinge), (''Script'', Script),
      (''LineRenderer'', LineRenderer)]"

fun LoadComp_ifs ::
  "'p Classes \<Rightarrow> string \<Rightarrow> (string \<times> ctype) list \<Rightarrow> Engine \<Rightarrow> 'p GameObject
    \<Rightarrow> (Engine \<times> 'p GameObject) option" where
  "LoadComp_ifs K typeStr [] e g = Some (e, g)"
| "LoadComp_ifs K typeStr ((name, T) # ifs) e g =
     (if typeStr = name
      then (case AddComponent_Load K T e g of
              None \<Rightarrow> None
            | Some (e1, g1) \<Rightarrow> LoadComp_ifs K typeStr ifs e1 g1)
      else LoadComp_ifs K typeStr ifs e g)"

definition LoadCompFromTypeStr ::
  "'p Classes \<Rightarrow> string \<Rightarrow> Engine \<Rightarrow> 'p GameObject \<Rightarrow> (Engine \<times> 'p GameObject) option" where
  "LoadCompFromTypeStr K typeStr e g = LoadComp_ifs K typeStr dispatch_table e g"

text \<open>The loop of Load: \<open>n\<close> iterations are left.\<close>

fun Load_loop ::
  "'p Classes \<Rightarrow> nat \<Rightarrow> Engine \<Rightarrow> 'p GameObject \<Rightarrow> (Engine \<times> 'p GameObject) option" where
  "Load_loop K 0 e g = Some (e, g)"
| "Load_loop K (Suc n) e g =
     (case LoadSTR e of
        None \<Rightarrow> None
      | Some (typeStr, e1) \<Rightarrow>
          (case LoadCompFromTypeStr K typeStr e1 g of
             None \<Rightarrow> None
           | Some (e2, g2) \<Rightarrow> Load_loop K n e2 g2))"

text \<open>
  \<open>componentCount\<close> is an \<open>int\<close>: the loop \<open>for (int i = 0; i < componentCount; i++)\<close>
  runs \<open>componentCount\<close> times, and not at all for a negative count.
\<close>

definition Load ::
  "'p Classes \<Rightarrow> Engine \<Rightarrow> 'p GameObject \<Rightarrow> (Engine \<times> 'p GameObject) option" where
  "Load K e g =
     do {
       (ID, e) \<leftarrow> LoadSTR e;
       (name, e) \<leftarrow> LoadSTR e;
       (isActive, e) \<leftarrow> LoadBool e;
       (hierarchyVisibility, e) \<leftarrow> LoadBool e;
       (componentCount, e) \<leftarrow> LoadInt e;
       Load_loop K (nat (sint componentCount)) e
         (g\<lparr>m_ID := ID, m_name := name, m_isActive := isActive,
            m_hierarchyVisibility := hierarchyVisibility\<rparr>)
     }"

section \<open>Texture persistence\<close>

subsection \<open>Texture: the metadata file\<close>

text \<open>
  \<open>enum TextureType\<close> is declared in Texture.h, which is not under src/. Serialize
  writes \<open>int(m_type)\<close> and Deserialize stores \<open>TextureType(int)\<close>: the model keeps
  the underlying integer. \<open>m_width\<close> and \<open>m_height\<close> are \<open>int\<close>s. Members whose
  names GameObject also uses carry the suffix \<open>_tex\<close>.
\<close>

type_synonym TextureType = "32 word"

record Texture =
  m_ID_tex :: string
  m_name_tex :: string
  m_filePathTexture :: string
  m_filePathMetadata :: string
  m_width_tex :: "32 word"
  m_height_tex :: "32 word"
  m_shaderResourceView :: handle
  m_type :: TextureType
  m_grayscale :: bool
  m_transparency :: bool
  m_alphaIsTransparency :: bool

text \<open>
  Modelled from the spec: the Serializer of this revision (\<open>WriteSTR\<close>, \<open>ReadSTR\<close>, ...)
  is not under src/ either; section 4.3 describes it as above.
\<close>

definition WriteSTR :: "string \<Rightarrow> Engine \<Rightarrow> Engine" where
  "WriteSTR v e = e\<lparr>out := out e @ [SStr v]\<rparr>"

definition WriteInt :: "32 word \<Rightarrow> Engine \<Rightarrow> Engine" where
  "WriteInt v e = e\<lparr>out := out e @ [SInt v]\<rparr>"

definition WriteBool :: "bool \<Rightarrow> Engine \<Rightarrow> Engine" where
  "WriteBool v e = e\<lparr>out := out e @ [SBool v]\<rparr>"

definition ReadSTR :: "Engine \<Rightarrow> (string \<times> Engine) option" where
  "ReadSTR e = (case inp e of SStr v # rest \<Rightarrow> Some (v, e\<lparr>inp := rest\<rparr>) | _ \<Rightarrow> None)"

definition ReadInt :: "Engine \<Rightarrow> (32 word \<times> Engine) option" where
  "ReadInt e = (case inp e of SInt v # rest \<Rightarrow> Some (v, e\<lparr>inp := rest\<rparr>) | _ \<Rightarrow> None)"

definition ReadBool :: "Engine \<Rightarrow> (bool \<times> Engine) option" where
  "ReadBool e = (case inp e of SBool v # rest \<Rightarrow> Some (v, e\<lparr>inp := rest\<rparr>) | _ \<Rightarrow> None)"

definition Texture_Serialize :: "Engine \<Rightarrow> Texture \<Rightarrow> Engine" where
  "Texture_Serialize e t =
     (let e = WriteSTR (m_ID_tex t) e;
          e = WriteSTR (m_name_tex t) e;
          e = WriteSTR (m_filePathTexture t) e;
          e = WriteSTR (m_filePathMetadata t) e;
          e = WriteInt (m_width_tex t) e;
          e = WriteInt (m_height_tex t) e;
          e = WriteInt (m_type t) e;
          e = WriteBool (m_grayscale t) e;
          e = WriteBool (m_transparency t) e
      in e)"

definition Texture_Deserialize :: "Engine \<Rightarrow> Texture \<Rightarrow> (Engine \<times> Texture) option" where
  "Texture_Deserialize e t =
     do {
       (v, e) \<leftarrow> ReadSTR e; let t = t\<lparr>m_ID_tex := v\<rparr>;
       (v, e) \<leftarrow> ReadSTR e; let t = t\<lparr>m_name_tex := v\<rparr>;
       (v, e) \<leftarrow> ReadSTR e; let t = t\<lparr>m_filePathTexture := v\<rparr>;
       (v, e) \<leftarrow> ReadSTR e; let t = t\<lparr>m_filePathMetadata := v\<rparr>;
       (v, e) \<leftarrow> ReadInt e; let t = t\<lparr>m_width_tex := v\<rparr>;
       (v, e) \<leftarrow> ReadInt e; let t = t\<lparr>m_height_tex := v\<rparr>;
       (v, e) \<leftarrow> ReadInt e; let t = t\<lparr>m_type := v\<rparr>;
       (v, e) \<leftarrow> ReadBool e; let t = t\<lparr>m_grayscale := v\<rparr>;
       (v, e) \<leftarrow> ReadBool e; let t = t\<lparr>m_transparency := v\<rparr>;
       Some (e, t)
     }"

subsection \<open>RHI_Texture: the engine format\<close>

text \<open>
  Modelled from the spec: FileStream (IO/FileStream.h) is not under src/. A file is the
  sequence of items written to it (section 4.3: raw byte blocks besides integers,
  booleans and strings; what is written is read back in the same order and width, and a
  read that does not find its item fails). Opening a file for reading succeeds when the
  file exists; \<open>writable\<close> says whether opening a path for writing succeeds, and
  writing replaces the file.
\<close>

record FileSystem =
  files :: "string \<Rightarrow> item list option"
  writable :: "string \<Rightarrow> bool"

definition ReadUInt :: "item list \<Rightarrow> (32 word \<times> item list) option" where
  "ReadUInt s = (case s of SInt v # rest \<Rightarrow> Some (v, rest) | _ \<Rightarrow> None)"

definition Read_bytes :: "item list \<Rightarrow> (8 word list \<times> item list) option" where
  "Read_bytes s = (case s of SBytes v # rest \<Rightarrow> Some (v, rest) | _ \<Rightarrow> None)"

definition Read_uint :: "item list \<Rightarrow> (32 word \<times> item list) option" where
  "Read_uint s = (case s of SInt v # rest \<Rightarrow> Some (v, rest) | _ \<Rightarrow> None)"

definition Read_bool :: "item list \<Rightarrow> (bool \<times> item list) option" where
  "Read_bool s = (case s of SBool v # rest \<Rightarrow> Some (v, rest) | _ \<Rightarrow> None)"

definition Read_string :: "item list \<Rightarrow> (string \<times> item list) option" where
  "Read_string s = (case s of SStr v # rest \<Rightarrow> Some (v, rest) | _ \<Rightarrow> None)"

text \<open>
  The members Serialize and Deserialize touch. Their declarations (RHI_Texture.h,
  IResource.h) are not under src/: the four sizes are \<open>unsigned int\<close>s like the mip
  count, and the three resource members are strings, as section 6 of the spec lists them.
\<close>

record RHI_Texture =
  m_data :: "8 word list list"
  m_bpp :: "32 word"
  m_width :: "32 word"
  m_height :: "32 word"
  m_channels :: "32 word"
  m_isGrayscale :: bool
  m_isTransparent :: bool
  m_isUsingMipmaps :: bool
  m_resourceID :: string
  m_resourceName :: string
  m_resourceFilePath :: string

definition ClearTextureBytes :: "RHI_Texture \<Rightarrow> RHI_Texture" where
  "ClearTextureBytes t =
     (let t = t\<lparr>m_data := map (\<lambda>mip. []) (m_data t)\<rparr>
      in t\<lparr>m_data := []\<rparr>)"

text \<open>
  The loop \<open>for (unsigned int i = 0; i < mipCount; i++)\<close> of GetTextureBytes and of
  Deserialize, at index \<open>i\<close> with \<open>n\<close> iterations left: an empty mip is appended,
  and the next block of the file is read into \<open>m_data[i]\<close>. An index outside the
  vector ends the run.
\<close>

fun read_mips ::
  "nat \<Rightarrow> nat \<Rightarrow> item list \<Rightarrow> 8 word list list \<Rightarrow> (8 word list list \<times> item list) option" where
  "read_mips i 0 s d = Some (d, s)"
| "read_mips i (Suc n) s d =
     (let d1 = d @ [[]]
      in (case Read_bytes s of
            None \<Rightarrow> None
          | Some (b, rest) \<Rightarrow>
              if i < length d1 then read_mips (Suc i) n rest (d1[i := b]) else None))"

text \<open>
  GetTextureBytes is called with \<open>&m_data\<close>, so \<open>textureBytes\<close> is the member itself.
  With mips in memory nothing happens; otherwise they are read from the resource file,
  if it opens.
\<close>

definition GetTextureBytes :: "FileSystem \<Rightarrow> RHI_Texture \<Rightarrow> RHI_Texture option" where
  "GetTextureBytes fs t =
     (if m_data t \<noteq> [] then Some t
      else (case files fs (m_resourceFilePath t) of
              None \<Rightarrow> Some t
            | Some s \<Rightarrow>
                do {
                  (mipCount, s) \<leftarrow> ReadUInt s;
                  (d, s) \<leftarrow> read_mips 0 (unat mipCount) s (m_data t);
                  Some (t\<lparr>m_data := d\<rparr>)
                }))"

text \<open>The items Serialize writes, in the order of its \<open>Write\<close> calls.\<close>

definition Serialize_items :: "RHI_Texture \<Rightarrow> item list" where
  "Serialize_items t =
     [SInt (of_nat (length (m_data t)))] @ map SBytes (m_data t) @
     [SInt (m_bpp t), SInt (m_width t), SInt (m_height t), SInt (m_channels t),
      SBool (m_isGrayscale t), SBool (m_isTransparent t), SBool (m_isUsingMipmaps t),
      SStr (m_resourceID t), SStr (m_resourceName t), SStr (m_resourceFilePath t)]"

definition RHI_Texture_Serialize ::
  "FileSystem \<Rightarrow> string \<Rightarrow> RHI_Texture \<Rightarrow> (bool \<times> FileSystem \<times> RHI_Texture) option" where
  "RHI_Texture_Serialize fs filePath t =
     (case GetTextureBytes fs t of
        None \<Rightarrow> None
      | Some t \<Rightarrow>
          if \<not> writable fs filePath then Some (False, fs, t)
          else
            let fs = fs\<lparr>files := (files fs)(filePath \<mapsto> Serialize_items t)\<rparr>;
                t = ClearTextureBytes t
            in Some (True, fs, t))"

definition RHI_Texture_Deserialize ::
  "FileSystem \<Rightarrow> string \<Rightarrow> RHI_Texture \<Rightarrow> (bool \<times> RHI_Texture) option" where
  "RHI_Texture_Deserialize fs filePath t =
     (case files fs filePath of
        None \<Rightarrow> Some (False, t)
      | Some s \<Rightarrow>
          do {
            let t = ClearTextureBytes t;
            (mipCount, s) \<leftarrow> ReadUInt s;
            (d, s) \<leftarrow> read_mips 0 (unat mipCount) s (m_data t);
            let t = t\<lparr>m_data := d\<rparr>;
            (v, s) \<leftarrow> Read_uint s; let t = t\<lparr>m_bpp := v\<rparr>;
            (v, s) \<leftarrow> Read_uint s; let t = t\<lparr>m_width := v\<rparr>;
            (v, s) \<leftarrow> Read_uint s; let t = t\<lparr>m_height := v\<rparr>;
            (v, s) \<leftarrow> Read_uint s; let t = t\<lparr>m_channels := v\<rparr>;
            (v, s) \<leftarrow> Read_bool s; let t = t\<lparr>m_isGrayscale := v\<rparr>;
            (v, s) \<leftarrow> Read_bool s; let t = t\<lparr>m_isTransparent := v\<rparr>;
            (v, s) \<leftarrow> Read_bool s; let t = t\<lparr>m_isUsingMipmaps := v\<rparr>;
            (v, s) \<leftarrow> Read_string s; let t = t\<lparr>m_resourceID := v\<rparr>;
            (v, s) \<leftarrow> Read_string s; let t = t\<lparr>m_resourceName := v\<rparr>;
            (v, s) \<leftarrow> Read_string s; let t = t\<lparr>m_resourceFilePath := v\<rparr>;
            Some (True, t)
          })"

section \<open>Properties of objects in use\<close>

text \<open>No component class derives from another one: every cast is exact.\<close>

definition flat :: "'p Classes \<Rightarrow> bool" where
  "flat K = (\<forall>d t. \<not> derives K d t)"

text \<open>
  What construction and the member functions keep true of an object: the keys of the map
  ascend strictly, no two entries share an object, every entry sits under the key of its
  class, was allocated before \<open>next_addr\<close> and has had its one \<open>Initialize()\<close>.
\<close>

definition map_inv :: "Engine \<Rightarrow> 'p GameObject \<Rightarrow> bool" where
  "map_inv e g =
     (sorted_wrt (<) (map fst (m_components g)) \<and>
      distinct (map (addr \<circ> snd) (m_components g)) \<and>
      list_all (\<lambda>(k, c). k = type_str (dyn_type c) \<and> addr c < next_addr e \<and>
                  Initialize_calls c = 1) (m_components g))"

text \<open>
  Every component class reads back what it saves: \<open>Load()\<close> on any object of the class,
  run on the items \<open>Save()\<close> wrote for fields \<open>p\<close>, leaves the fields \<open>p\<close> and the
  stream right behind those items.
\<close>

definition symmetric :: "'p Classes \<Rightarrow> bool" where
  "symmetric K = (\<forall>T p p0 rest. Load_of K T p0 (Save_of K T p @ rest) = Some (p, rest))"

text \<open>What an object holds under each key: the class of the component and its fields.\<close>

definition entries_data :: "(string \<times> 'p IComponent) list \<Rightarrow> string \<Rightarrow> (ctype \<times> 'p) option" where
  "entries_data xs = map_of (map (\<lambda>(k, c). (k, (dyn_type c, c_fields c))) xs)"

definition component_data :: "'p GameObject \<Rightarrow> string \<Rightarrow> (ctype \<times> 'p) option" where
  "component_data g = entries_data (m_components g)"

text \<open>The items a run of \<open>Save()\<close> appended to the stream.\<close>

definition written :: "Engine \<Rightarrow> Engine \<Rightarrow> item list" where
  "written e e' = drop (length (out e)) (out e')"

text \<open>The four members Save writes first and Load reads first.\<close>

definition header :: "'p GameObject \<Rightarrow> string \<times> string \<times> bool \<times> bool" where
  "header g = (m_ID g, m_name g, m_isActive g, m_hierarchyVisibility g)"

text \<open>The format of the component entries: each key followed by what the component saves.\<close>

definition entries_items :: "'p Classes \<Rightarrow> (string \<times> 'p IComponent) list \<Rightarrow> item list" where
  "entries_items K xs =
     concat (map (\<lambda>(k, c). SStr k # Save_of K (dyn_type c) (c_fields c)) xs)"

text \<open>The classes of the components an object owns.\<close>

definition classes_of :: "'p GameObject \<Rightarrow> ctype set" where
  "classes_of g = (dyn_type \<circ> snd) ` set (m_components g)"

text \<open>No class of the set derives from a class of the set: among them every cast is exact.\<close>

definition unrelated :: "'p Classes \<Rightarrow> ctype set \<Rightarrow> bool" where
  "unrelated K S = (\<forall>d\<in>S. \<forall>t\<in>S. \<not> derives K d t)"


section \<open>A sample scene\<close>

text \<open>
  Component classes with one 32-bit field each: no class derives from another,
  \<open>Update()\<close> counts the field up, \<open>Save()\<close> writes it and \<open>Load()\<close> reads it back.
\<close>

definition demo_classes :: "32 word Classes" where
  "demo_classes =
     \<lparr>derives = (\<lambda>d t. False),
       ctor_of = (\<lambda>T. 0),
       Initialize_of = (\<lambda>T p. p),
       Update_of = (\<lambda>T p. p + 1),
       Save_of = (\<lambda>T p. [SInt p]),
       Load_of = (\<lambda>T p s. case s of SInt v # rest \<Rightarrow> Some (v, rest) | _ \<Rightarrow> None)\<rparr>"

definition demo_engine :: Engine where
  "demo_engine =
     \<lparr>next_addr = 2, freed = [], pool = [7],
       p_D3D11Device = Some 100, p_scene = Some 101, p_meshPool = Some 102,
       p_materialPool = Some 103, p_texturePool = Some 104, p_shaderPool = Some 105,
       p_physics = Some 106, p_scriptEngine = Some 107,
       MakeDirty_calls = [], out = [], inp = [], log = []\<rparr>"

definition demo_component :: "nat \<Rightarrow> ctype \<Rightarrow> 32 word \<Rightarrow> 32 word IComponent" where
  "demo_component a T v =
     \<lparr>addr = a, dyn_type = T, g_gameObject = Some 7, g_transform = Some 0,
       g_d3d11Device = Some 100, g_meshPool = Some 102, g_scene = Some 101,
       g_materialPool = Some 103, g_texturePool = Some 104, g_shaderPool = Some 105,
       g_physics = Some 106, g_scriptEngine = Some 107,
       Initialize_calls = 1, Update_calls = 0, c_fields = v\<rparr>"

text \<open>An object with a camera beside its transform.\<close>

definition demo_object :: "32 word GameObject" where
  "demo_object =
     \<lparr>self = 7, m_ID = ''0451'', m_name = ''Player'', m_isActive = True,
       m_hierarchyVisibility = False,
       m_components = [(''Camera'', demo_component 1 Camera 60),
                       (''Transform'', demo_component 0 Transform 3)],
       m_transform = Some 0,
       m_D3D11Device = Some 100, m_scene = Some 101, m_meshPool = Some 102,
       m_materialPool = Some 103, m_texturePool = Some 104, m_shaderPool = Some 105,
       m_physics = Some 106, m_scriptEngine = Some 107\<rparr>"

text \<open>The same object after \<open>RemoveComponent<Transform>()\<close>.\<close>

definition demo_bare :: "32 word GameObject" where
  "demo_bare = snd (RemoveComponent demo_classes Transform demo_engine demo_object)"

text \<open>Storage that happens to hold zeros.\<close>

definition demo_raw :: "32 word GameObject" where
  "demo_raw =
     \<lparr>self = 0, m_ID = [], m_name = [], m_isActive = False, m_hierarchyVisibility = False,
       m_components = [], m_transform = None, m_D3D11Device = None, m_scene = None,
       m_meshPool = None, m_materialPool = None, m_texturePool = None, m_shaderPool = None,
       m_physics = None, m_scriptEngine = None\<rparr>"

text \<open>A new object, constructed while the Serializer is about to read \<open>items\<close>.\<close>

definition demo_fresh :: "item list \<Rightarrow> Engine \<times> 32 word GameObject" where
  "demo_fresh items =
     GameObject_GameObject demo_classes ''fresh'' 8 demo_raw (demo_engine\<lparr>inp := items\<rparr>)"

text \<open>
  The same classes with two of them derived: a MeshCollider is a Collider, a LineRenderer
  is a MeshRenderer.
\<close>

definition demo_hierarchy :: "32 word Classes" where
  "demo_hierarchy =
     demo_classes\<lparr>derives := (\<lambda>d t. (d = MeshCollider \<and> t = Collider) \<or>
                                     (d = LineRenderer \<and> t = MeshRenderer))\<rparr>"


text \<open>A new object that is given a mesh renderer and then a line renderer.\<close>

definition demo_renderers :: "Engine \<times> 32 word GameObject" where
  "demo_renderers =
     (let (e, g) = GameObject_GameObject demo_hierarchy ''renderers'' 10 demo_raw demo_engine;
          (p, e, g) = AddComponent demo_hierarchy MeshRenderer e g;
          (p, e, g) = AddComponent demo_hierarchy LineRenderer e g
      in (e, g))"

text \<open>A new object under these classes, about to read \<open>items\<close>.\<close>

definition demo_fresh_h :: "item list \<Rightarrow> Engine \<times> 32 word GameObject" where
  "demo_fresh_h items =
     GameObject_GameObject demo_hierarchy ''fresh'' 8 demo_raw (demo_engine\<lparr>inp := items\<rparr>)"

definition demo_fs :: FileSystem where
  "demo_fs = \<lparr>files = (\<lambda>p. None), writable = (\<lambda>p. p = ''brick.tex'')\<rparr>"

definition demo_rhi_texture :: RHI_Texture where
  "demo_rhi_texture =
     \<lparr>m_data = [[1, 2], [3]], m_bpp = 8, m_width = 2, m_height = 1, m_channels = 4,
       m_isGrayscale = False, m_isTransparent = True, m_isUsingMipmaps = True,
       m_resourceID = ''42'', m_resourceName = ''brick'', m_resourceFilePath = ''brick.tex''\<rparr>"

definition demo_texture :: Texture where
  "demo_texture =
     \<lparr>m_ID_tex = ''77'', m_name_tex = ''N/A'', m_filePathTexture = ''N/A'',
       m_filePathMetadata = ''N/A'', m_width_tex = 0, m_height_tex = 0,
       m_shaderResourceView = None, m_type = 0, m_grayscale = False,
       m_transparency = False, m_alphaIsTransparency = False\<rparr>"

section \<open>Proofs\<close>

subsection \<open>Keys, casts and the map\<close>

lemma type_str_simps [simp]:
  "type_str Transform = ''Transform''" "type_str Mesh = ''Mesh''"
  "type_str MeshRenderer = ''MeshRenderer''" "type_str Light = ''Light''"
  "type_str Camera = ''Camera''" "type_str Skybox = ''Skybox''"
  "type_str RigidBody = ''RigidBody''" "type_str Collider = ''Collider''"
  "type_str MeshCollider = ''MeshCollider''" "type_str Hinge = ''Hinge''"
  "type_str Script = ''Script''" "type_str LineRenderer = ''LineRenderer''"
  by (simp_all add: type_str_def substr_def pos_plus_1_def)

lemma dispatch_type_str: "map_of dispatch_table (type_str T) = Some T"
  by (cases T) (simp_all add: dispatch_table_def)

lemma type_str_inj: "type_str a = type_str b \<Longrightarrow> a = b"
  by (metis dispatch_type_str option.inject)

lemma distinct_dispatch: "distinct (map fst dispatch_table)"
  by (simp add: dispatch_table_def)

lemma dispatch_mem: "(type_str T, T) \<in> set dispatch_table"
  by (rule map_of_SomeD) (rule dispatch_type_str)

lemma UNIV_ctype:
  "(UNIV :: ctype set) = {Transform, Mesh, MeshRenderer, Light, Camera, Skybox, RigidBody,
     Collider, MeshCollider, Hinge, Script, LineRenderer}"
proof -
  have "x \<in> {Transform, Mesh, MeshRenderer, Light, Camera, Skybox, RigidBody,
     Collider, MeshCollider, Hinge, Script, LineRenderer}" for x
    by (cases x) simp_all
  then show ?thesis by blast
qed

lemma card_ctype: "card (UNIV :: ctype set) = 12"
  by (simp add: UNIV_ctype)

lemma keys_bound:
  assumes "distinct ks" "set ks \<subseteq> range type_str"
  shows "length ks \<le> 12"
proof -
  have "length ks = card (set ks)" using assms(1) by (simp add: distinct_card)
  also have "\<dots> \<le> card (range type_str)"
    using assms(2) by (intro card_mono) (simp_all add: UNIV_ctype)
  also have "\<dots> \<le> card (UNIV :: ctype set)"
    by (rule card_image_le) (simp add: UNIV_ctype)
  finally show ?thesis by (simp add: card_ctype)
qed

lemma sint_count: "n < 2 ^ 31 \<Longrightarrow> nat (sint (of_nat n :: 32 word)) = n"
proof -
  assume a: "n < 2 ^ 31"
  have "sint (of_nat n :: 32 word) = signed_take_bit 31 (int n)"
    by (simp add: signed_of_nat)
  also have "\<dots> = int n"
    by (rule signed_take_bit_int_eq_self) (use a in simp_all)
  finally show ?thesis by simp
qed


lemma cast_flat: "flat K \<Longrightarrow> dynamic_cast K T c = (dyn_type c = T)"
  by (simp add: dynamic_cast_def flat_def)

lemma scan_None: "GetComponent_scan K T xs = None \<longleftrightarrow> (\<forall>x\<in>set xs. \<not> dynamic_cast K T (snd x))"
  by (induction K T xs rule: GetComponent_scan.induct) auto


lemma scan_key:
  "flat K \<Longrightarrow> list_all (\<lambda>(k, c). k = type_str (dyn_type c)) xs \<Longrightarrow>
     GetComponent_scan K T xs = map_option addr (map_of xs (type_str T))"
  by (induction K T xs rule: GetComponent_scan.induct) (auto simp: cast_flat dest: type_str_inj)

lemma remove_scan_None:
  "RemoveComponent_scan K T xs = None \<longleftrightarrow> (\<forall>x\<in>set xs. \<not> dynamic_cast K T (snd x))"
  by (induction K T xs rule: RemoveComponent_scan.induct) (auto split: option.splits)

lemma remove_scan_Some:
  "RemoveComponent_scan K T xs = Some (d, rest) \<Longrightarrow>
     \<exists>ys zs k. xs = ys @ (k, d) # zs \<and> rest = ys @ zs \<and> dynamic_cast K T d \<and>
       (\<forall>y\<in>set ys. \<not> dynamic_cast K T (snd y))"
proof (induction K T xs arbitrary: rest rule: RemoveComponent_scan.induct)
  case (1 K T)
  then show ?case by simp
next
  case (2 K T k component it)
  show ?case
  proof (cases "dynamic_cast K T component")
    case True
    with 2(2) have "d = component" "rest = it" by simp_all
    with True show ?thesis
      by (intro exI [of _ "[]"] exI [of _ it] exI [of _ k]) simp
  next
    case False
    with 2(2) obtain r where r: "RemoveComponent_scan K T it = Some (d, r)" "rest = (k, component) # r"
      by (auto split: option.splits)
    from 2(1) [OF False r(1)] obtain ys zs k' where
      "it = ys @ (k', d) # zs" "r = ys @ zs" "dynamic_cast K T d"
      "\<forall>y\<in>set ys. \<not> dynamic_cast K T (snd y)" by blast
    with False r(2) show ?thesis
      by (intro exI [of _ "(k, component) # ys"] exI [of _ zs] exI [of _ k']) auto
  qed
qed

lemma map_insert_subset: "set (map_insert k v xs) \<subseteq> insert (k, v) (set xs)"
  by (induction k v xs rule: map_insert.induct) auto

lemma map_insert_sorted:
  "sorted_wrt (<) (map fst xs) \<Longrightarrow> sorted_wrt (<) (map fst (map_insert k v xs))"
proof (induction k v xs rule: map_insert.induct)
  case (1 k v)
  then show ?case by simp
next
  case (2 k v k' v' rest)
  have "k' < fst x" if "x \<in> set (map_insert k v rest)" "\<not> k < k'" "k \<noteq> k'" for x
  proof -
    from that(1) map_insert_subset have "x = (k, v) \<or> x \<in> set rest" by fastforce
    with 2(2) that(2,3) show ?thesis by auto
  qed
  with 2 show ?case by auto
qed

lemma map_insert_set:
  "k \<notin> fst ` set xs \<Longrightarrow> set (map_insert k v xs) = insert (k, v) (set xs)"
  by (induction k v xs rule: map_insert.induct) (auto split: if_splits)

lemma map_insert_length:
  "k \<notin> fst ` set xs \<Longrightarrow> length (map_insert k v xs) = Suc (length xs)"
  by (induction k v xs rule: map_insert.induct) (auto split: if_splits)

lemma map_insert_split:
  "k \<notin> fst ` set xs \<Longrightarrow> \<exists>ys zs. xs = ys @ zs \<and> map_insert k v xs = ys @ (k, v) # zs"
proof (induction k v xs rule: map_insert.induct)
  case (1 k v)
  then show ?case by simp
next
  case (2 k v k' v' rest)
  show ?case
  proof (cases "k < k'")
    case True
    with 2(2) show ?thesis
      by (intro exI [of _ "[]"] exI [of _ "(k', v') # rest"]) auto
  next
    case False
    with 2 obtain ys zs where "rest = ys @ zs" "map_insert k v rest = ys @ (k, v) # zs"
      by auto
    with False 2(2) show ?thesis
      by (intro exI [of _ "(k', v') # ys"] exI [of _ zs]) auto
  qed
qed

lemma map_at_insert:
  "k \<notin> fst ` set xs \<Longrightarrow> map_at k f (map_insert k v xs) = map_insert k (f v) xs"
  by (induction k v xs rule: map_insert.induct) (auto split: if_splits)

lemma map_of_insert:
  "k \<notin> fst ` set xs \<Longrightarrow> map_of (map_insert k v xs) = (map_of xs)(k \<mapsto> v)"
  by (induction k v xs rule: map_insert.induct) (auto split: if_splits)

lemma scan_insert:
  "\<forall>x\<in>set xs. \<not> dynamic_cast K T (snd x) \<Longrightarrow> dynamic_cast K T v \<Longrightarrow>
     k \<notin> fst ` set xs \<Longrightarrow> GetComponent_scan K T (map_insert k v xs) = Some (addr v)"
  by (induction k v xs rule: map_insert.induct) (auto split: if_splits)

lemma inject_m_components [simp]: "inject (g\<lparr>m_components := x\<rparr>) = inject g"
  by (rule ext) (simp add: inject_def GetTransform_def)

lemma new_component_simps [simp]:
  "addr (fst (new_component K T e)) = next_addr e"
  "dyn_type (fst (new_component K T e)) = T"
  "snd (new_component K T e) = e\<lparr>next_addr := Suc (next_addr e)\<rparr>"
  "Initialize_calls (fst (new_component K T e)) = 0"
  "c_fields (fst (new_component K T e)) = ctor_of K T"
  by (simp_all add: new_component_def)

lemma inject_simps [simp]:
  "addr (inject g c) = addr c" "dyn_type (inject g c) = dyn_type c"
  "Initialize_calls (inject g c) = Initialize_calls c" "c_fields (inject g c) = c_fields c"
  "Update_calls (inject g c) = Update_calls c"
  by (simp_all add: inject_def)

lemma call_Initialize_simps [simp]:
  "addr (call_Initialize K c) = addr c" "dyn_type (call_Initialize K c) = dyn_type c"
  "Initialize_calls (call_Initialize K c) = Suc (Initialize_calls c)"
  "c_fields (call_Initialize K c) = Initialize_of K (dyn_type c) (c_fields c)"
  "Update_calls (call_Initialize K c) = Update_calls c"
  by (simp_all add: call_Initialize_def)

lemma AddComponent_present:
  "HasComponent K T g \<Longrightarrow> AddComponent K T e g = (GetComponent K T g, e, g)"
  by (simp add: AddComponent_def)

lemma AddComponent_absent:
  assumes "\<not> HasComponent K T g" "type_str T \<notin> fst ` set (m_components g)"
  shows "AddComponent K T e g =
     (Some (next_addr e),
      MakeDirty (m_scene g) (e\<lparr>next_addr := Suc (next_addr e)\<rparr>),
      g\<lparr>m_components :=
          map_insert (type_str T) (call_Initialize K (inject g (fst (new_component K T e))))
            (m_components g)\<rparr>)"
proof -
  have none: "\<forall>x\<in>set (m_components g). \<not> dynamic_cast K T (snd x)"
    using assms(1) by (simp add: HasComponent_def GetComponent_def scan_None split: if_splits)
  have "GetComponent_scan K T
          (map_insert (type_str T) (call_Initialize K (inject g (fst (new_component K T e))))
            (m_components g)) = Some (next_addr e)"
    using scan_insert [OF none, of "call_Initialize K (inject g (fst (new_component K T e)))" "type_str T"]
      assms(2)
    by (simp add: dynamic_cast_def)
  then show ?thesis
    using assms
    by (simp add: AddComponent_def Let_def split_beta GetComponent_def map_at_insert)
qed

lemma absent_key:
  assumes "\<not> HasComponent K T g" "list_all (\<lambda>(k, c). k = type_str (dyn_type c)) (m_components g)"
  shows "type_str T \<notin> fst ` set (m_components g)"
proof
  assume "type_str T \<in> fst ` set (m_components g)"
  then obtain c where c: "(type_str T, c) \<in> set (m_components g)" by force
  with assms(2) have "type_str T = type_str (dyn_type c)"
    by (auto simp: list_all_iff)
  then have "dyn_type c = T" by (auto dest: type_str_inj)
  then have "dynamic_cast K T c" by (simp add: dynamic_cast_def)
  with c assms(1) show False
    by (force simp: HasComponent_def GetComponent_def scan_None split: if_splits)
qed

subsection \<open>The invariant of the component map\<close>

lemma MakeDirty_simps [simp]:
  "next_addr (MakeDirty s e) = next_addr e" "inp (MakeDirty s e) = inp e"
  "out (MakeDirty s e) = out e" "log (MakeDirty s e) = log e"
  "freed (MakeDirty s e) = freed e"
  "MakeDirty_calls (MakeDirty s e) = MakeDirty_calls e @ [s]"
  by (simp_all add: MakeDirty_def)

lemma map_inv_keys: "map_inv e g \<Longrightarrow> list_all (\<lambda>(k, c). k = type_str (dyn_type c)) (m_components g)"
  by (auto simp: map_inv_def list_all_iff)

lemma map_inv_distinct_keys: "map_inv e g \<Longrightarrow> distinct (map fst (m_components g))"
  by (simp add: map_inv_def strict_sorted_iff)

lemma map_inv_insert:
  assumes "map_inv e g" "k \<notin> fst ` set (m_components g)" "k = type_str (dyn_type c)"
    "addr c = next_addr e" "Initialize_calls c = 1" "next_addr e' = Suc (next_addr e)"
  shows "map_inv e' (g\<lparr>m_components := map_insert k c (m_components g)\<rparr>)"
proof -
  have old: "\<And>x. x \<in> set (m_components g) \<Longrightarrow>
      fst x = type_str (dyn_type (snd x)) \<and> addr (snd x) < next_addr e \<and>
      Initialize_calls (snd x) = 1"
    using assms(1) by (auto simp: map_inv_def list_all_iff)
  have set_eq: "set (map_insert k c (m_components g)) = insert (k, c) (set (m_components g))"
    by (rule map_insert_set [OF assms(2)])
  have "sorted_wrt (<) (map fst (map_insert k c (m_components g)))"
    using assms(1) by (simp add: map_inv_def map_insert_sorted)
  moreover have "distinct (map (addr \<circ> snd) (map_insert k c (m_components g)))"
  proof -
    obtain ys zs where s: "m_components g = ys @ zs"
      "map_insert k c (m_components g) = ys @ (k, c) # zs"
      using map_insert_split [OF assms(2)] by blast
    have d: "distinct (map (addr \<circ> snd) (ys @ zs))"
      using assms(1) by (simp add: map_inv_def s(1))
    have "addr (snd x) \<noteq> addr c" if "x \<in> set ys \<union> set zs" for x
      using old [of x] that assms(4) by (simp add: s(1))
    then have "addr c \<notin> (addr \<circ> snd) ` (set ys \<union> set zs)" by force
    with d show ?thesis unfolding s(2) by (simp add: image_Un)
  qed
  moreover have "list_all (\<lambda>(k, c). k = type_str (dyn_type c) \<and> addr c < next_addr e' \<and>
      Initialize_calls c = 1) (map_insert k c (m_components g))"
    unfolding list_all_iff set_eq
  proof
    fix x assume "x \<in> insert (k, c) (set (m_components g))"
    then consider "x = (k, c)" | "x \<in> set (m_components g)" by blast
    then show "case x of (k, c) \<Rightarrow> k = type_str (dyn_type c) \<and> addr c < next_addr e' \<and>
      Initialize_calls c = 1"
    proof cases
      case 1
      then show ?thesis using assms(3-6) by simp
    next
      case 2
      from old [OF 2] assms(6) show ?thesis by (simp add: split_beta)
    qed
  qed
  ultimately show ?thesis by (simp add: map_inv_def)
qed

lemma map_inv_AddComponent:
  assumes "map_inv e g"
  shows "map_inv (fst (snd (AddComponent K T e g))) (snd (snd (AddComponent K T e g)))"
proof (cases "HasComponent K T g")
  case True
  with assms show ?thesis by (simp add: AddComponent_present)
next
  case False
  note absent = absent_key [OF False map_inv_keys [OF assms]]
  show ?thesis
    unfolding AddComponent_absent [OF False absent]
    using map_inv_insert [OF assms absent, of "call_Initialize K (inject g (fst (new_component K T e)))"
        "MakeDirty (m_scene g) (e\<lparr>next_addr := Suc (next_addr e)\<rparr>)"]
    by simp
qed

lemma map_inv_erase:
  assumes "map_inv e g" "m_components g = ys @ x # zs" "next_addr e' = next_addr e"
  shows "map_inv e' (g\<lparr>m_components := ys @ zs\<rparr>)"
  using assms by (auto simp: map_inv_def sorted_wrt_append)

lemma map_inv_RemoveComponent:
  assumes "map_inv e g"
  shows "map_inv (fst (RemoveComponent K T e g)) (snd (RemoveComponent K T e g))"
proof (cases "RemoveComponent_scan K T (m_components g)")
  case None
  with assms show ?thesis by (simp add: RemoveComponent_def)
next
  case (Some a)
  obtain d rest where a: "a = (d, rest)" by (cases a)
  from remove_scan_Some [OF Some [unfolded a]] obtain ys zs k where
    s: "m_components g = ys @ (k, d) # zs" "rest = ys @ zs" by blast
  have "map_inv (MakeDirty (m_scene g) (e\<lparr>freed := freed e @ [addr d]\<rparr>))
     (g\<lparr>m_components := rest\<rparr>)"
    unfolding s(2) by (rule map_inv_erase [OF assms s(1)]) simp
  then show ?thesis unfolding RemoveComponent_def Some a by simp
qed

lemma Update_loop_keys: "map fst (Update_loop K xs) = map fst xs"
  by (induction K xs rule: Update_loop.induct) simp_all

lemma call_Update_simps [simp]:
  "addr (call_Update K c) = addr c" "dyn_type (call_Update K c) = dyn_type c"
  "Initialize_calls (call_Update K c) = Initialize_calls c"
  "Update_calls (call_Update K c) = Suc (Update_calls c)"
  "c_fields (call_Update K c) = Update_of K (dyn_type c) (c_fields c)"
  by (simp_all add: call_Update_def)

lemma Update_loop_map: "Update_loop K xs = map (\<lambda>(k, c). (k, call_Update K c)) xs"
  by (induction K xs rule: Update_loop.induct) simp_all

lemma map_inv_Update: "map_inv e g \<Longrightarrow> map_inv e (Update K g)"
  by (auto simp: map_inv_def Update_def Update_loop_map list_all_iff comp_def split_beta)

subsection \<open>Construction\<close>

lemma AddComponent_empty:
  assumes "m_components g = []"
  shows "AddComponent K T e g =
     (Some (next_addr e),
      MakeDirty (m_scene g) (e\<lparr>next_addr := Suc (next_addr e)\<rparr>),
      g\<lparr>m_components :=
          [(type_str T, call_Initialize K (inject g (fst (new_component K T e))))]\<rparr>)"
proof -
  have "\<not> HasComponent K T g" "type_str T \<notin> fst ` set (m_components g)"
    using assms by (simp_all add: HasComponent_def GetComponent_def)
  from AddComponent_absent [OF this] show ?thesis by (simp add: assms)
qed

lemma Initialize_m_components [simp]:
  "m_components (Initialize a b c d e f g h x) = m_components x"
  by (simp add: Initialize_def)

lemma ctor_eq:
  "GameObject_GameObject K guid a raw e =
     (let g1 = Initialize (p_D3D11Device e) (p_scene e) (p_meshPool e) (p_materialPool e)
                 (p_texturePool e) (p_shaderPool e) (p_physics e) (p_scriptEngine e)
                 (raw\<lparr>self := a, m_components := [], m_ID := guid, m_name := ''GameObject'',
                      m_isActive := True, m_hierarchyVisibility := True\<rparr>);
          e1 = e\<lparr>pool := pool e @ [a]\<rparr>
      in (MakeDirty (m_scene g1) (e1\<lparr>next_addr := Suc (next_addr e1)\<rparr>),
          g1\<lparr>m_components :=
               [(''Transform'', call_Initialize K (inject g1 (fst (new_component K Transform e1))))],
             m_transform := Some (next_addr e1)\<rparr>))"
  unfolding GameObject_GameObject_def AddGameObjectToPool_def Let_def
  by (simp add: AddComponent_empty)

text \<open>
  C4. Right after construction an object owns exactly one component, its transform, which
  has been initialized; \<open>GetComponent<Transform>()\<close> returns that component and not a
  null pointer, and it is the one \<open>GetTransform()\<close> hands out.
\<close>

theorem fresh_object_owns_one_transform:
  "\<exists>c. m_components (snd (GameObject_GameObject K guid a raw e)) = [(''Transform'', c)] \<and>
       dyn_type c = Transform \<and> Initialize_calls c = 1 \<and>
       GetComponent K Transform (snd (GameObject_GameObject K guid a raw e)) = Some (addr c) \<and>
       GetTransform (snd (GameObject_GameObject K guid a raw e)) = Some (addr c)"
  by (simp add: ctor_eq Let_def GetComponent_def GetTransform_def dynamic_cast_def)

lemma ctor_inv:
  "map_inv (fst (GameObject_GameObject K guid a raw e)) (snd (GameObject_GameObject K guid a raw e))"
  by (simp add: ctor_eq Let_def map_inv_def)

subsection \<open>Update\<close>

text \<open>
  C5. \<open>Update()\<close> on an object that is not active changes nothing: no component's
  update hook runs. On an active object the owned components stay the same objects under
  the same keys, and the hook of each has run exactly once more, on the fields it had.
\<close>

theorem Update_dispatch:
  "(\<not> m_isActive g \<longrightarrow> Update K g = g) \<and>
   (m_isActive g \<longrightarrow>
      map (\<lambda>(k, c). (k, addr c)) (m_components (Update K g)) =
        map (\<lambda>(k, c). (k, addr c)) (m_components g) \<and>
      map (Update_calls \<circ> snd) (m_components (Update K g)) =
        map (Suc \<circ> Update_calls \<circ> snd) (m_components g) \<and>
      map (c_fields \<circ> snd) (m_components (Update K g)) =
        map (\<lambda>(k, c). Update_of K (dyn_type c) (c_fields c)) (m_components g))"
  by (simp add: Update_def Update_loop_map split_beta comp_def)

theorem Update_dispatch_witness:
  "m_isActive demo_object \<and>
   map (Update_calls \<circ> snd) (m_components demo_object) = [0, 0] \<and>
   map (Update_calls \<circ> snd) (m_components (Update demo_classes demo_object)) = [1, 1] \<and>
   \<not> m_isActive (SetActive False demo_object) \<and>
   Update demo_classes (SetActive False demo_object) = SetActive False demo_object"
proof -
  have a: "m_isActive demo_object" "\<not> m_isActive (SetActive False demo_object)"
    by (simp_all add: demo_object_def SetActive_def)
  have b: "map (Update_calls \<circ> snd) (m_components demo_object) = [0, 0]"
    by (simp add: demo_object_def demo_component_def)
  have "map (Suc \<circ> Update_calls \<circ> snd) (m_components demo_object) = [1, 1]"
    by (simp add: demo_object_def demo_component_def)
  with Update_dispatch [of demo_object demo_classes] a(1)
  have c: "map (Update_calls \<circ> snd) (m_components (Update demo_classes demo_object)) = [1, 1]"
    by simp
  from Update_dispatch [of "SetActive False demo_object" demo_classes] a(2)
  have d: "Update demo_classes (SetActive False demo_object) = SetActive False demo_object"
    by simp
  show ?thesis using a b c d by simp
qed

subsection \<open>RHI_Texture\<close>

lemma read_mips_blocks:
  "read_mips (length d) (length bs) (map SBytes bs @ rest) d = Some (d @ bs, rest)"
proof (induction bs arbitrary: d)
  case Nil
  then show ?case by simp
next
  case (Cons b bs)
  have "read_mips (Suc (length d)) (length bs) (map SBytes bs @ rest) (d @ [b]) =
      Some ((d @ [b]) @ bs, rest)"
    using Cons [of "d @ [b]"] by simp
  then show ?case by (simp add: Read_bytes_def)
qed

lemma unat_count: "n < 2 ^ 32 \<Longrightarrow> unat (of_nat n :: 32 word) = n"
  by (simp add: unat_of_nat)

lemma ClearTextureBytes_simps [simp]:
  "m_data (ClearTextureBytes t) = []" "m_bpp (ClearTextureBytes t) = m_bpp t"
  "m_width (ClearTextureBytes t) = m_width t" "m_height (ClearTextureBytes t) = m_height t"
  "m_channels (ClearTextureBytes t) = m_channels t"
  "m_isGrayscale (ClearTextureBytes t) = m_isGrayscale t"
  "m_isTransparent (ClearTextureBytes t) = m_isTransparent t"
  "m_isUsingMipmaps (ClearTextureBytes t) = m_isUsingMipmaps t"
  "m_resourceID (ClearTextureBytes t) = m_resourceID t"
  "m_resourceName (ClearTextureBytes t) = m_resourceName t"
  "m_resourceFilePath (ClearTextureBytes t) = m_resourceFilePath t"
  by (simp_all add: ClearTextureBytes_def)

lemma GetTextureBytes_frame:
  assumes "GetTextureBytes fs t = Some t1"
  shows "t1 = t\<lparr>m_data := m_data t1\<rparr>"
  using assms
  by (auto simp: GetTextureBytes_def bind_eq_Some_conv split: if_splits option.splits)

lemma Deserialize_items:
  assumes "files fs p =
      Some ([SInt (of_nat (length d))] @ map SBytes d @
            [SInt bpp, SInt w, SInt h, SInt ch, SBool gr, SBool tr, SBool mm,
             SStr rid, SStr rname, SStr rpath])"
    and "length d < 2 ^ 32"
  shows "RHI_Texture_Deserialize fs p t0 =
     Some (True, t0\<lparr>m_data := d, m_bpp := bpp, m_width := w, m_height := h, m_channels := ch,
                    m_isGrayscale := gr, m_isTransparent := tr, m_isUsingMipmaps := mm,
                    m_resourceID := rid, m_resourceName := rname, m_resourceFilePath := rpath\<rparr>)"
proof -
  have "read_mips 0 (length d)
          (map SBytes d @ [SInt bpp, SInt w, SInt h, SInt ch, SBool gr, SBool tr, SBool mm,
             SStr rid, SStr rname, SStr rpath]) [] =
        Some (d, [SInt bpp, SInt w, SInt h, SInt ch, SBool gr, SBool tr, SBool mm,
             SStr rid, SStr rname, SStr rpath])"
    using read_mips_blocks [of "[]" d] by simp
  then show ?thesis
    using assms
    by (simp add: RHI_Texture_Deserialize_def ReadUInt_def unat_count Read_uint_def
        Read_bool_def Read_string_def ClearTextureBytes_def)
qed

text \<open>
  C8. Serialize writes the mip count, each mip's byte block, then bpp, width, height,
  channels, isGrayscale, isTransparent, usingMipmaps, resourceID, resourceName and
  resourceFilePath, in this order; Deserialize reads the same fields in the same order, so
  that reading the file back restores every one of them. The mips written are the
  texture's own when it holds any (otherwise those GetTextureBytes reloads from its
  resource file). The file has to open for writing, and the mip count has to fit the
  \<open>unsigned int\<close> it is written as.
\<close>

theorem RHI_Texture_round_trip:
  assumes "GetTextureBytes fs t = Some t1" and "writable fs p"
    and "length (m_data t1) < 2 ^ 32"
  shows "\<exists>fs' t'.
      RHI_Texture_Serialize fs p t = Some (True, fs', ClearTextureBytes t1) \<and>
      files fs' p =
        Some ([SInt (of_nat (length (m_data t1)))] @ map SBytes (m_data t1) @
              [SInt (m_bpp t), SInt (m_width t), SInt (m_height t), SInt (m_channels t),
               SBool (m_isGrayscale t), SBool (m_isTransparent t), SBool (m_isUsingMipmaps t),
               SStr (m_resourceID t), SStr (m_resourceName t), SStr (m_resourceFilePath t)]) \<and>
      RHI_Texture_Deserialize fs' p t0 = Some (True, t') \<and>
      m_data t' = m_data t1 \<and> m_bpp t' = m_bpp t \<and> m_width t' = m_width t \<and>
      m_height t' = m_height t \<and> m_channels t' = m_channels t \<and>
      m_isGrayscale t' = m_isGrayscale t \<and> m_isTransparent t' = m_isTransparent t \<and>
      m_isUsingMipmaps t' = m_isUsingMipmaps t \<and> m_resourceID t' = m_resourceID t \<and>
      m_resourceName t' = m_resourceName t \<and> m_resourceFilePath t' = m_resourceFilePath t \<and>
      (if m_data t = [] then True else m_data t1 = m_data t)"
proof -
  let ?items = "[SInt (of_nat (length (m_data t1)))] @ map SBytes (m_data t1) @
              [SInt (m_bpp t), SInt (m_width t), SInt (m_height t), SInt (m_channels t),
               SBool (m_isGrayscale t), SBool (m_isTransparent t), SBool (m_isUsingMipmaps t),
               SStr (m_resourceID t), SStr (m_resourceName t), SStr (m_resourceFilePath t)]"
  let ?fs = "fs\<lparr>files := (files fs)(p \<mapsto> Serialize_items t1)\<rparr>"
  note frame = GetTextureBytes_frame [OF assms(1)]
  have items: "Serialize_items t1 = ?items"
    by (subst frame) (simp add: Serialize_items_def)
  have ser: "RHI_Texture_Serialize fs p t = Some (True, ?fs, ClearTextureBytes t1)"
    using assms(1,2) by (simp add: RHI_Texture_Serialize_def Let_def)
  have written: "files ?fs p = Some ?items"
    by (simp add: items)
  note des = Deserialize_items [OF written assms(3), of t0]
  have mem: "if m_data t = [] then True else m_data t1 = m_data t"
    using assms(1) by (auto simp: GetTextureBytes_def)
  show ?thesis
    by (intro exI conjI, rule ser, rule written, rule des) (simp_all add: mem)
qed

theorem RHI_Texture_round_trip_witness:
  "GetTextureBytes demo_fs demo_rhi_texture = Some demo_rhi_texture \<and>
   writable demo_fs ''brick.tex'' \<and>
   length (m_data demo_rhi_texture) < 2 ^ 32 \<and>
   (\<exists>fs' t'.
      RHI_Texture_Serialize demo_fs ''brick.tex'' demo_rhi_texture =
        Some (True, fs', ClearTextureBytes demo_rhi_texture) \<and>
      files fs' ''brick.tex'' =
        Some [SInt 2, SBytes [1, 2], SBytes [3], SInt 8, SInt 2, SInt 1, SInt 4,
              SBool False, SBool True, SBool True, SStr ''42'', SStr ''brick'',
              SStr ''brick.tex''] \<and>
      RHI_Texture_Deserialize fs' ''brick.tex'' (ClearTextureBytes demo_rhi_texture) =
        Some (True, t') \<and> t' = demo_rhi_texture)"
proof -
  have h: "GetTextureBytes demo_fs demo_rhi_texture = Some demo_rhi_texture"
    "writable demo_fs ''brick.tex''" "length (m_data demo_rhi_texture) < 2 ^ 32"
    by (simp_all add: GetTextureBytes_def demo_fs_def demo_rhi_texture_def)
  from RHI_Texture_round_trip [OF h, of "ClearTextureBytes demo_rhi_texture"]
  obtain fs' t' where
    "RHI_Texture_Serialize demo_fs ''brick.tex'' demo_rhi_texture =
        Some (True, fs', ClearTextureBytes demo_rhi_texture)"
    "files fs' ''brick.tex'' =
        Some [SInt 2, SBytes [1, 2], SBytes [3], SInt 8, SInt 2, SInt 1, SInt 4,
              SBool False, SBool True, SBool True, SStr ''42'', SStr ''brick'',
              SStr ''brick.tex'']"
    "RHI_Texture_Deserialize fs' ''brick.tex'' (ClearTextureBytes demo_rhi_texture) =
        Some (True, t')" "t' = demo_rhi_texture"
    by (auto simp: demo_rhi_texture_def)
  with h show ?thesis by blast
qed

text \<open>
  C10. When Serialize returns true, the texture's mip data is empty: saving a texture
  changes the texture.
\<close>

theorem Serialize_clears_mips:
  "RHI_Texture_Serialize fs p t = Some (True, fs', t') \<Longrightarrow> m_data t' = []"
  by (auto simp: RHI_Texture_Serialize_def Let_def split: option.splits if_splits)

theorem Serialize_clears_mips_witness:
  "RHI_Texture_Serialize demo_fs ''brick.tex'' demo_rhi_texture =
     Some (True, demo_fs\<lparr>files := (files demo_fs)(''brick.tex'' \<mapsto> Serialize_items demo_rhi_texture)\<rparr>,
           ClearTextureBytes demo_rhi_texture) \<and>
   m_data demo_rhi_texture = [[1, 2], [3]] \<and>
   m_data (ClearTextureBytes demo_rhi_texture) = []"
proof -
  have h: "RHI_Texture_Serialize demo_fs ''brick.tex'' demo_rhi_texture =
     Some (True, demo_fs\<lparr>files := (files demo_fs)(''brick.tex'' \<mapsto> Serialize_items demo_rhi_texture)\<rparr>,
           ClearTextureBytes demo_rhi_texture)"
    by (simp add: RHI_Texture_Serialize_def GetTextureBytes_def demo_fs_def
        demo_rhi_texture_def Let_def)
  from Serialize_clears_mips [OF h] h show ?thesis
    by (simp add: demo_rhi_texture_def)
qed

subsection \<open>Adding and removing components\<close>

lemma Has_iff: "HasComponent K T g \<longleftrightarrow> (\<exists>x\<in>set (m_components g). dynamic_cast K T (snd x))"
  using scan_None [of K T "m_components g"] by (auto simp: HasComponent_def GetComponent_def)

lemma RemoveComponent_absent: "\<not> HasComponent K T g \<Longrightarrow> RemoveComponent K T e g = (e, g)"
proof -
  assume "\<not> HasComponent K T g"
  then have "RemoveComponent_scan K T (m_components g) = None"
    by (simp add: Has_iff remove_scan_None)
  then show ?thesis by (simp add: RemoveComponent_def)
qed

lemma RemoveComponent_present:
  assumes "HasComponent K T g"
  shows "\<exists>ys k d zs. m_components g = ys @ (k, d) # zs \<and>
      (\<forall>y\<in>set ys. \<not> dynamic_cast K T (snd y)) \<and> dynamic_cast K T d \<and>
      RemoveComponent K T e g =
        (MakeDirty (m_scene g) (e\<lparr>freed := freed e @ [addr d]\<rparr>), g\<lparr>m_components := ys @ zs\<rparr>)"
proof -
  from assms have "RemoveComponent_scan K T (m_components g) \<noteq> None"
    by (simp add: Has_iff remove_scan_None)
  then obtain d rest where s: "RemoveComponent_scan K T (m_components g) = Some (d, rest)"
    by auto
  from remove_scan_Some [OF s] obtain ys zs k where
    *: "m_components g = ys @ (k, d) # zs" "rest = ys @ zs" "dynamic_cast K T d"
      "\<forall>y\<in>set ys. \<not> dynamic_cast K T (snd y)" by blast
  have "RemoveComponent K T e g =
        (MakeDirty (m_scene g) (e\<lparr>freed := freed e @ [addr d]\<rparr>), g\<lparr>m_components := ys @ zs\<rparr>)"
    unfolding RemoveComponent_def s using *(2) by simp
  with * show ?thesis by blast
qed

lemma AddComponent_result:
  assumes "map_inv e g"
  shows "fst (AddComponent K T e g) = GetComponent K T (snd (snd (AddComponent K T e g)))"
    and "HasComponent K T (snd (snd (AddComponent K T e g)))"
proof -
  have "fst (AddComponent K T e g) = GetComponent K T (snd (snd (AddComponent K T e g))) \<and>
      HasComponent K T (snd (snd (AddComponent K T e g)))"
  proof (cases "HasComponent K T g")
    case True
    then show ?thesis by (simp add: AddComponent_present)
  next
    case False
    note absent = absent_key [OF False map_inv_keys [OF assms]]
    have none: "\<forall>x\<in>set (m_components g). \<not> dynamic_cast K T (snd x)"
      using False by (simp add: Has_iff)
    have "GetComponent_scan K T
          (map_insert (type_str T) (call_Initialize K (inject g (fst (new_component K T e))))
            (m_components g)) = Some (next_addr e)"
      using scan_insert [OF none _ absent,
          of "call_Initialize K (inject g (fst (new_component K T e)))"]
      by (simp add: dynamic_cast_def)
    then show ?thesis
      unfolding AddComponent_absent [OF False absent]
      by (simp add: GetComponent_def HasComponent_def)
  qed
  then show "fst (AddComponent K T e g) = GetComponent K T (snd (snd (AddComponent K T e g)))"
    and "HasComponent K T (snd (snd (AddComponent K T e g)))" by simp_all
qed




text \<open>
  C9. AddComponent on an object that has a component of the type returns it and changes
  neither the object nor the scene (no \<open>MakeDirty()\<close>); RemoveComponent on an object that
  has none changes nothing either. In the other two cases the collection changes by one
  entry and \<open>MakeDirty()\<close> is called once, on \<open>m_scene\<close>.
\<close>

theorem MakeDirty_only_on_change:
  "(HasComponent K T g \<longrightarrow> AddComponent K T e g = (GetComponent K T g, e, g)) \<and>
   (\<not> HasComponent K T g \<longrightarrow> RemoveComponent K T e g = (e, g)) \<and>
   (map_inv e g \<and> \<not> HasComponent K T g \<longrightarrow>
      MakeDirty_calls (fst (snd (AddComponent K T e g))) = MakeDirty_calls e @ [m_scene g] \<and>
      length (m_components (snd (snd (AddComponent K T e g)))) = Suc (length (m_components g))) \<and>
   (HasComponent K T g \<longrightarrow>
      MakeDirty_calls (fst (RemoveComponent K T e g)) = MakeDirty_calls e @ [m_scene g] \<and>
      Suc (length (m_components (snd (RemoveComponent K T e g)))) = length (m_components g))"
proof (intro conjI impI)
  assume "HasComponent K T g"
  then show "AddComponent K T e g = (GetComponent K T g, e, g)"
    by (rule AddComponent_present)
next
  assume "\<not> HasComponent K T g"
  then show "RemoveComponent K T e g = (e, g)" by (rule RemoveComponent_absent)
next
  assume a: "map_inv e g \<and> \<not> HasComponent K T g"
  then have absent: "type_str T \<notin> fst ` set (m_components g)"
    using absent_key map_inv_keys by blast
  from a have no: "\<not> HasComponent K T g" by simp
  show "MakeDirty_calls (fst (snd (AddComponent K T e g))) = MakeDirty_calls e @ [m_scene g]"
    unfolding AddComponent_absent [OF no absent] by simp
  show "length (m_components (snd (snd (AddComponent K T e g)))) = Suc (length (m_components g))"
    unfolding AddComponent_absent [OF no absent] by (simp add: map_insert_length [OF absent])
next
  assume h: "HasComponent K T g"
  from RemoveComponent_present [OF h, of e] obtain ys k d zs where
    *: "m_components g = ys @ (k, d) # zs"
    "RemoveComponent K T e g =
        (MakeDirty (m_scene g) (e\<lparr>freed := freed e @ [addr d]\<rparr>), g\<lparr>m_components := ys @ zs\<rparr>)"
    by blast
  show "MakeDirty_calls (fst (RemoveComponent K T e g)) = MakeDirty_calls e @ [m_scene g]"
    unfolding *(2) by simp
  show "Suc (length (m_components (snd (RemoveComponent K T e g)))) = length (m_components g)"
    unfolding *(2) by (simp add: *(1))
qed










subsection \<open>The sample scene: adding and removing\<close>

lemma demo_flat: "flat demo_classes"
  by (simp add: flat_def demo_classes_def)

lemma demo_inv: "map_inv demo_engine demo_object"
  by (simp add: map_inv_def demo_engine_def demo_object_def demo_component_def)

lemma demo_has_camera: "HasComponent demo_classes Camera demo_object"
  by (simp add: HasComponent_def GetComponent_def demo_object_def demo_component_def
      dynamic_cast_def)

lemma demo_no_mesh: "\<not> HasComponent demo_classes Mesh demo_object"
  by (simp add: HasComponent_def GetComponent_def demo_object_def demo_component_def
      dynamic_cast_def demo_classes_def)

lemma demo_get_camera: "GetComponent demo_classes Camera demo_object = Some 1"
  by (simp add: GetComponent_def demo_object_def demo_component_def dynamic_cast_def)


theorem MakeDirty_only_on_change_witness:
  "HasComponent demo_classes Camera demo_object \<and>
   AddComponent demo_classes Camera demo_engine demo_object = (Some 1, demo_engine, demo_object) \<and>
   \<not> HasComponent demo_classes Mesh demo_object \<and>
   RemoveComponent demo_classes Mesh demo_engine demo_object = (demo_engine, demo_object) \<and>
   map_inv demo_engine demo_object \<and>
   MakeDirty_calls demo_engine = [] \<and>
   MakeDirty_calls (fst (snd (AddComponent demo_classes Mesh demo_engine demo_object))) =
     [Some 101] \<and>
   length (m_components (snd (snd (AddComponent demo_classes Mesh demo_engine demo_object)))) = 3 \<and>
   MakeDirty_calls (fst (RemoveComponent demo_classes Camera demo_engine demo_object)) =
     [Some 101] \<and>
   length (m_components (snd (RemoveComponent demo_classes Camera demo_engine demo_object))) = 1"
proof -
  have v: "MakeDirty_calls demo_engine = []" "m_scene demo_object = Some 101"
    "length (m_components demo_object) = 2"
    by (simp_all add: demo_engine_def demo_object_def)
  from MakeDirty_only_on_change [of demo_classes Camera demo_object demo_engine]
    demo_has_camera demo_get_camera v
  have 1: "AddComponent demo_classes Camera demo_engine demo_object =
      (Some 1, demo_engine, demo_object)"
    "MakeDirty_calls (fst (RemoveComponent demo_classes Camera demo_engine demo_object)) =
     [Some 101]"
    "length (m_components (snd (RemoveComponent demo_classes Camera demo_engine demo_object))) = 1"
    by simp_all
  from MakeDirty_only_on_change [of demo_classes Mesh demo_object demo_engine]
    demo_no_mesh demo_inv v
  have 2: "RemoveComponent demo_classes Mesh demo_engine demo_object = (demo_engine, demo_object)"
    "MakeDirty_calls (fst (snd (AddComponent demo_classes Mesh demo_engine demo_object))) =
     [Some 101]"
    "length (m_components (snd (snd (AddComponent demo_classes Mesh demo_engine demo_object)))) = 3"
    by simp_all
  from 1 2 demo_has_camera demo_no_mesh demo_inv v(1) show ?thesis by simp
qed









subsection \<open>Texture metadata and unknown component tags\<close>

text \<open>
  C7 (as amended). Texture::Deserialize stores the integer it reads for the texture type
  as the field's value, whatever the integer is: the read succeeds for every value and
  nothing is validated.
\<close>

theorem Texture_Deserialize_accepts_any_type:
  "Texture_Deserialize
     (e\<lparr>inp := SStr a # SStr b # SStr c # SStr d # SInt w # SInt h # SInt v # SBool gr #
              SBool tr # rest\<rparr>) t =
   Some (e\<lparr>inp := rest\<rparr>,
         t\<lparr>m_ID_tex := a, m_name_tex := b, m_filePathTexture := c, m_filePathMetadata := d,
            m_width_tex := w, m_height_tex := h, m_type := v, m_grayscale := gr,
            m_transparency := tr\<rparr>)"
  by (simp add: Texture_Deserialize_def ReadSTR_def ReadInt_def ReadBool_def)

theorem Texture_Deserialize_unvalidated_counterexample:
  "map_option (\<lambda>(e, t). sint (m_type t))
     (Texture_Deserialize
        (demo_engine\<lparr>inp := [SStr ''77'', SStr ''brick'', SStr ''brick.png'',
                             SStr ''brick.png.meta'', SInt 64, SInt 64, SInt (- 1),
                             SBool False, SBool True]\<rparr>)
        demo_texture) = Some (- 1)"
  by (simp add: Texture_Deserialize_def ReadSTR_def ReadInt_def ReadBool_def demo_engine_def)

lemma ifs_miss:
  "typeStr \<notin> fst ` set ifs \<Longrightarrow> LoadComp_ifs K typeStr ifs e g = Some (e, g)"
  by (induction K typeStr ifs e g rule: LoadComp_ifs.induct) auto

lemma ifs_hit:
  "distinct (map fst ifs) \<Longrightarrow> (typeStr, T) \<in> set ifs \<Longrightarrow>
     LoadComp_ifs K typeStr ifs e g = AddComponent_Load K T e g"
proof (induction ifs)
  case Nil
  then show ?case by simp
next
  case (Cons x ifs)
  obtain name T' where x: "x = (name, T')" by (cases x)
  show ?case
  proof (cases "typeStr = name")
    case True
    with Cons.prems x have "T' = T" "typeStr \<notin> fst ` set ifs" by force+
    with True x show ?thesis by (simp add: ifs_miss split: option.splits)
  next
    case False
    with Cons x show ?thesis by auto
  qed
qed

lemma LoadCompFromTypeStr_known:
  "LoadCompFromTypeStr K (type_str T) e g = AddComponent_Load K T e g"
  unfolding LoadCompFromTypeStr_def by (rule ifs_hit [OF distinct_dispatch dispatch_mem])

text \<open>
  C3 (as amended). When Load meets a component tag that none of the comparisons of
  LoadCompFromTypeStr matches, nothing happens: no component is created, nothing is
  logged, no item beyond the tag is consumed, and the loop goes on with the item right
  behind the tag.
\<close>

theorem unknown_tag_is_skipped_silently:
  assumes "typeStr \<notin> fst ` set dispatch_table"
  shows "LoadCompFromTypeStr K typeStr e g = Some (e, g) \<and>
     Load_loop K (Suc n) (e\<lparr>inp := SStr typeStr # rest\<rparr>) g =
       Load_loop K n (e\<lparr>inp := rest\<rparr>) g"
  using assms by (simp add: LoadCompFromTypeStr_def ifs_miss LoadSTR_def)

subsection \<open>The sample scene: an unknown tag\<close>

lemma demo_unknown: "''Terrain'' \<notin> fst ` set dispatch_table"
  by (simp add: dispatch_table_def)

lemma demo_load_camera:
  "AddComponent_Load demo_classes Camera (demo_engine\<lparr>inp := SInt 75 # rest\<rparr>) demo_object =
     Some (demo_engine\<lparr>inp := rest\<rparr>,
           demo_object\<lparr>m_components := [(''Camera'', demo_component 1 Camera 75),
                                          (''Transform'', demo_component 0 Transform 3)]\<rparr>)"
proof -
  have "AddComponent demo_classes Camera (demo_engine\<lparr>inp := SInt 75 # rest\<rparr>) demo_object =
      (Some 1, demo_engine\<lparr>inp := SInt 75 # rest\<rparr>, demo_object)"
    by (simp add: AddComponent_present demo_has_camera demo_get_camera)
  then show ?thesis
    by (simp add: AddComponent_Load_def call_Load_def demo_object_def demo_component_def
        demo_classes_def)
qed

theorem unknown_tag_is_skipped_silently_witness:
  "''Terrain'' \<notin> fst ` set dispatch_table \<and>
   LoadCompFromTypeStr demo_classes ''Terrain'' demo_engine demo_object =
     Some (demo_engine, demo_object) \<and>
   Load_loop demo_classes (Suc 0) (demo_engine\<lparr>inp := [SStr ''Terrain'', SInt 7]\<rparr>) demo_object =
     Some (demo_engine\<lparr>inp := [SInt 7]\<rparr>, demo_object)"
  using unknown_tag_is_skipped_silently [OF demo_unknown, of demo_classes demo_engine demo_object 0 "[SInt 7]"]
    demo_unknown
  by simp

theorem unknown_tag_not_reported_counterexample:
  "map_option (\<lambda>(e, g). (log e, inp e, map (\<lambda>(k, c). (k, c_fields c)) (m_components g)))
     (Load demo_classes
        (demo_engine\<lparr>inp := [SStr ''0451'', SStr ''Player'', SBool True, SBool False, SInt 2,
                             SStr ''Terrain'', SStr ''Camera'', SInt 75]\<rparr>)
        demo_object) =
   Some ([], [], [(''Camera'', 75), (''Transform'', 3)])"
proof -
  have t: "LoadCompFromTypeStr demo_classes ''Terrain'' e g = Some (e, g)" for e g
    by (simp add: LoadCompFromTypeStr_def ifs_miss demo_unknown)
  have c: "LoadCompFromTypeStr demo_classes ''Camera'' (demo_engine\<lparr>inp := [SInt 75]\<rparr>) g =
      AddComponent_Load demo_classes Camera (demo_engine\<lparr>inp := [SInt 75]\<rparr>) g" for g
    using LoadCompFromTypeStr_known [of demo_classes Camera] by simp
  have g: "demo_object\<lparr>m_ID := ''0451'', m_name := ''Player'', m_isActive := True,
      m_hierarchyVisibility := False\<rparr> = demo_object"
    by (simp add: demo_object_def)
  have loop: "Load_loop demo_classes 2
      (demo_engine\<lparr>inp := [SStr ''Terrain'', SStr ''Camera'', SInt 75]\<rparr>) demo_object =
     Some (demo_engine\<lparr>inp := []\<rparr>,
           demo_object\<lparr>m_components := [(''Camera'', demo_component 1 Camera 75),
                                          (''Transform'', demo_component 0 Transform 3)]\<rparr>)"
    by (simp add: numeral_2_eq_2 LoadSTR_def t c demo_load_camera del: One_nat_def)
  have "Load demo_classes
        (demo_engine\<lparr>inp := [SStr ''0451'', SStr ''Player'', SBool True, SBool False, SInt 2,
                             SStr ''Terrain'', SStr ''Camera'', SInt 75]\<rparr>)
        demo_object =
     Some (demo_engine\<lparr>inp := []\<rparr>,
           demo_object\<lparr>m_components := [(''Camera'', demo_component 1 Camera 75),
                                          (''Transform'', demo_component 0 Transform 3)]\<rparr>)"
    by (simp add: Load_def LoadSTR_def LoadBool_def LoadInt_def g loop del: One_nat_def)
  then show ?thesis by (simp add: demo_engine_def demo_component_def)
qed

subsection \<open>Loading one component\<close>

lemma find_addr:
  "distinct (map (addr \<circ> snd) xs) \<Longrightarrow> (k, c) \<in> set xs \<Longrightarrow>
     find (\<lambda>(k, c'). addr c' = addr c) xs = Some (k, c)"
proof (induction xs)
  case Nil
  then show ?case by simp
next
  case (Cons x xs)
  show ?case
  proof (cases "x = (k, c)")
    case True
    then show ?thesis by simp
  next
    case False
    with Cons.prems have mem: "(k, c) \<in> set xs" by simp
    with Cons.prems(1) have "addr (snd x) \<noteq> addr c" by force
    with Cons mem show ?thesis by (simp add: split_beta)
  qed
qed

lemma call_Load_entry:
  assumes "distinct (map (addr \<circ> snd) (m_components g))" "(k, c) \<in> set (m_components g)"
    and "Load_of K (dyn_type c) (c_fields c) (inp e) = Some (f, rest)"
  shows "call_Load K (Some (addr c)) e g =
     Some (e\<lparr>inp := rest\<rparr>,
           g\<lparr>m_components :=
               map (\<lambda>(k', c'). if addr c' = addr c then (k', c'\<lparr>c_fields := f\<rparr>) else (k', c'))
                 (m_components g)\<rparr>)"
  using assms(3) by (simp add: call_Load_def find_addr [OF assms(1,2)])

lemma store_keys:
  "map fst (map (\<lambda>(k', c'). if addr c' = a then (k', c'\<lparr>c_fields := f\<rparr>) else (k', c')) xs) =
     map fst xs"
  by (induction xs) (auto simp: split_beta)

lemma store_addrs:
  "map (addr \<circ> snd)
     (map (\<lambda>(k', c'). if addr c' = a then (k', c'\<lparr>c_fields := f\<rparr>) else (k', c')) xs) =
     map (addr \<circ> snd) xs"
  by (induction xs) (auto simp: split_beta)

lemma map_inv_store:
  assumes "map_inv e g" "next_addr e' = next_addr e"
  shows "map_inv e'
     (g\<lparr>m_components :=
         map (\<lambda>(k', c'). if addr c' = a then (k', c'\<lparr>c_fields := f\<rparr>) else (k', c'))
           (m_components g)\<rparr>)"
proof -
  let ?ys = "map (\<lambda>(k', c'). if addr c' = a then (k', c'\<lparr>c_fields := f\<rparr>) else (k', c'))
           (m_components g)"
  have "sorted_wrt (<) (map fst ?ys)" "distinct (map (addr \<circ> snd) ?ys)"
    using assms(1) unfolding store_keys store_addrs by (simp_all add: map_inv_def)
  moreover have "list_all (\<lambda>(k, c). k = type_str (dyn_type c) \<and> addr c < next_addr e' \<and>
                  Initialize_calls c = 1) ?ys"
    using assms by (auto simp: map_inv_def list_all_iff split_beta)
  ultimately show ?thesis by (simp add: map_inv_def del: map_map list.map_comp)
qed

lemma data_store:
  assumes "distinct (map fst xs)" "distinct (map (addr \<circ> snd) xs)" "(k, c) \<in> set xs"
  shows "map_of (map (\<lambda>(k, c). (k, (dyn_type c, c_fields c)))
           (map (\<lambda>(k', c'). if addr c' = addr c then (k', c'\<lparr>c_fields := f\<rparr>) else (k', c')) xs)) =
         (map_of (map (\<lambda>(k, c). (k, (dyn_type c, c_fields c))) xs))(k \<mapsto> (dyn_type c, f))"
  using assms
proof (induction xs)
  case Nil
  then show ?case by simp
next
  case (Cons x xs)
  show ?case
  proof (cases "x = (k, c)")
    case True
    have "addr (snd y) \<noteq> addr c" if "y \<in> set xs" for y
      using Cons.prems(2) that True by force
    then have "map (\<lambda>(k', c'). if addr c' = addr c then (k', c'\<lparr>c_fields := f\<rparr>) else (k', c')) xs = xs"
      by (intro map_idI) (auto simp: split_beta)
    with True show ?thesis by (auto simp: fun_eq_iff)
  next
    case False
    with Cons.prems have mem: "(k, c) \<in> set xs" by simp
    then have in_k: "k \<in> fst ` set xs" and in_a: "addr c \<in> (addr \<circ> snd) ` set xs"
      by force+
    from Cons.prems(1) have "fst x \<notin> fst ` set xs" by simp
    moreover from Cons.prems(2) have "addr (snd x) \<notin> (addr \<circ> snd) ` set xs" by simp
    ultimately have ne: "addr (snd x) \<noteq> addr c" "fst x \<noteq> k"
      using in_k in_a by metis+
    have d: "distinct (map fst xs)" "distinct (map (addr \<circ> snd) xs)"
      using Cons.prems(1,2) by (simp_all add: comp_def)
    note IH = Cons.IH [OF d mem]
    obtain kx cx where x: "x = (kx, cx)" by (cases x)
    with ne have "addr cx \<noteq> addr c" "kx \<noteq> k" by simp_all
    then show ?thesis
      unfolding x by (auto simp: IH fun_eq_iff simp del: map_map list.map_comp)
  qed
qed

lemma data_insert:
  "k \<notin> fst ` set xs \<Longrightarrow>
     map_of (map (\<lambda>(k, c). (k, (dyn_type c, c_fields c))) (map_insert k v xs)) =
       (map_of (map (\<lambda>(k, c). (k, (dyn_type c, c_fields c))) xs))(k \<mapsto> (dyn_type v, c_fields v))"
  by (induction k v xs rule: map_insert.induct) (auto simp: fun_upd_twist)

lemma AddComponent_frame:
  "inp (fst (snd (AddComponent K T e g))) = inp e"
  "log (fst (snd (AddComponent K T e g))) = log e"
  "out (fst (snd (AddComponent K T e g))) = out e"
  "header (snd (snd (AddComponent K T e g))) = header g"
  by (simp_all add: AddComponent_def Let_def split_beta header_def)

lemma AddComponent_data:
  assumes "map_inv e g" "k \<noteq> type_str T"
  shows "component_data (snd (snd (AddComponent K T e g))) k = component_data g k"
proof (cases "HasComponent K T g")
  case True
  then show ?thesis by (simp add: AddComponent_present)
next
  case False
  note absent = absent_key [OF False map_inv_keys [OF assms(1)]]
  show ?thesis
    unfolding AddComponent_absent [OF False absent]
    using assms(2) by (simp add: component_data_def entries_data_def data_insert [OF absent])
qed

lemma exact_cast:
  "unrelated K S \<Longrightarrow> T \<in> S \<Longrightarrow> dyn_type c \<in> S \<Longrightarrow> dynamic_cast K T c = (dyn_type c = T)"
  by (auto simp: dynamic_cast_def unrelated_def)

lemma flat_unrelated: "flat K \<Longrightarrow> unrelated K S"
  by (simp add: flat_def unrelated_def)

lemma scan_key_exact:
  "\<forall>x\<in>set xs. dynamic_cast K T (snd x) = (dyn_type (snd x) = T) \<Longrightarrow>
     list_all (\<lambda>(k, c). k = type_str (dyn_type c)) xs \<Longrightarrow>
     GetComponent_scan K T xs = map_option addr (map_of xs (type_str T))"
  by (induction K T xs rule: GetComponent_scan.induct) (auto dest: type_str_inj)

lemma AddComponent_classes:
  assumes "map_inv e g"
  shows "classes_of (snd (snd (AddComponent K T e g))) \<subseteq> insert T (classes_of g)"
proof (cases "HasComponent K T g")
  case True
  then show ?thesis by (auto simp: AddComponent_present)
next
  case False
  note absent = absent_key [OF False map_inv_keys [OF assms]]
  show ?thesis
    unfolding AddComponent_absent [OF False absent]
    by (auto simp: classes_of_def map_insert_set [OF absent])
qed

lemma store_classes:
  "classes_of (g\<lparr>m_components :=
       map (\<lambda>(k', c'). if addr c' = a then (k', c'\<lparr>c_fields := f\<rparr>) else (k', c'))
         (m_components g)\<rparr>) = classes_of g"
proof -
  have "map (dyn_type \<circ> snd)
      (map (\<lambda>(k', c'). if addr c' = a then (k', c'\<lparr>c_fields := f\<rparr>) else (k', c')) xs) =
      map (dyn_type \<circ> snd) xs" for xs :: "(string \<times> 'a IComponent) list"
    by (induction xs) (auto simp: split_beta)
  then have "set (map (dyn_type \<circ> snd)
      (map (\<lambda>(k', c'). if addr c' = a then (k', c'\<lparr>c_fields := f\<rparr>) else (k', c'))
         (m_components g))) = set (map (dyn_type \<circ> snd) (m_components g))"
    by (rule arg_cong)
  then show ?thesis
    unfolding classes_of_def by (simp del: map_map list.map_comp add: image_image)
qed

lemma AddComponent_Load_step:
  assumes "unrelated K S" "T \<in> S" "classes_of g \<subseteq> S"
    and "symmetric K" "map_inv e g" "inp e = Save_of K T p @ rest"
  shows "\<exists>e' g'. AddComponent_Load K T e g = Some (e', g') \<and> inp e' = rest \<and>
      log e' = log e \<and> map_inv e' g' \<and> header g' = header g \<and> classes_of g' \<subseteq> S \<and>
      component_data g' = (component_data g)(type_str T \<mapsto> (T, p))"
proof -
  let ?r = "AddComponent K T e g"
  let ?e1 = "fst (snd ?r)" and ?g1 = "snd (snd ?r)"
  have inv1: "map_inv ?e1 ?g1" by (rule map_inv_AddComponent [OF assms(5)])
  note keys1 = map_inv_keys [OF inv1]
  have cl1: "classes_of ?g1 \<subseteq> S"
    using AddComponent_classes [OF assms(5), of K T] assms(2,3) by auto
  have exact1: "\<forall>x\<in>set (m_components ?g1). dynamic_cast K T (snd x) = (dyn_type (snd x) = T)"
  proof
    fix x assume "x \<in> set (m_components ?g1)"
    then have "dyn_type (snd x) \<in> classes_of ?g1" by (force simp: classes_of_def)
    with cl1 have "dyn_type (snd x) \<in> S" by blast
    then show "dynamic_cast K T (snd x) = (dyn_type (snd x) = T)"
      by (rule exact_cast [OF assms(1,2)])
  qed
  from AddComponent_result [OF assms(5), of K T]
  have p1: "fst ?r = GetComponent K T ?g1" and has1: "HasComponent K T ?g1" by simp_all
  from has1 obtain c where c: "map_of (m_components ?g1) (type_str T) = Some c"
    "fst ?r = Some (addr c)"
    unfolding p1 by (auto simp: HasComponent_def GetComponent_def scan_key_exact [OF exact1 keys1]
        split: if_splits)
  have mem: "(type_str T, c) \<in> set (m_components ?g1)" using c(1) by (rule map_of_SomeD)
  with keys1 have "type_str T = type_str (dyn_type c)" by (auto simp: list_all_iff)
  then have dyn: "dyn_type c = T" by (auto dest: type_str_inj)
  have "Load_of K (dyn_type c) (c_fields c) (inp ?e1) = Some (p, rest)"
    using assms(4,6) by (simp add: dyn AddComponent_frame symmetric_def)
  note load = call_Load_entry [OF _ mem this]
  have da: "distinct (map (addr \<circ> snd) (m_components ?g1))"
    using inv1 by (simp add: map_inv_def)
  let ?g' = "?g1\<lparr>m_components :=
               map (\<lambda>(k', c'). if addr c' = addr c then (k', c'\<lparr>c_fields := p\<rparr>) else (k', c'))
                 (m_components ?g1)\<rparr>"
  have res: "AddComponent_Load K T e g = Some (?e1\<lparr>inp := rest\<rparr>, ?g')"
    unfolding AddComponent_Load_def using load [OF da] c(2)
    by (simp add: split_beta)
  have inv': "map_inv (?e1\<lparr>inp := rest\<rparr>) ?g'"
    by (rule map_inv_store [OF inv1]) simp
  have hd: "header ?g' = header g"
    using AddComponent_frame(4) [of K T e g] by (simp add: header_def)
  have cl': "classes_of ?g' \<subseteq> S" using cl1 by (simp only: store_classes)
  have "component_data ?g' = (component_data ?g1)(type_str T \<mapsto> (T, p))"
    using data_store [OF map_inv_distinct_keys [OF inv1] da mem, of p]
    by (simp add: component_data_def entries_data_def dyn)
  also have "\<dots> = (component_data g)(type_str T \<mapsto> (T, p))"
    using AddComponent_data [OF assms(5), of _ T K] by (auto simp: fun_eq_iff)
  finally have dat: "component_data ?g' = (component_data g)(type_str T \<mapsto> (T, p))" .
  show ?thesis
    by (intro exI conjI, rule res) (simp_all add: inv' hd dat cl' AddComponent_frame)
qed

subsection \<open>Save followed by Load\<close>

lemma call_Save_out: "call_Save K c e = e\<lparr>out := out e @ Save_of K (dyn_type c) (c_fields c)\<rparr>"
  by (simp add: call_Save_def)

lemma Save_loop_out: "Save_loop K xs e = e\<lparr>out := out e @ entries_items K xs\<rparr>"
proof (induction K xs e rule: Save_loop.induct)
  case (1 K e)
  then show ?case by (simp add: entries_items_def)
next
  case (2 K k component it e)
  then show ?case by (simp add: entries_items_def call_Save_def SaveSTR_def)
qed

lemma Save_written:
  "written e (Save K e g) =
     [SStr (m_ID g), SStr (m_name g), SBool (m_isActive g), SBool (m_hierarchyVisibility g),
      SInt (of_nat (length (m_components g)))] @ entries_items K (m_components g)"
  by (simp add: written_def Save_def Let_def Save_loop_out SaveSTR_def SaveBool_def SaveInt_def)

lemma map_inv_cong:
  "next_addr e' = next_addr e \<Longrightarrow> m_components g' = m_components g \<Longrightarrow>
     map_inv e' g' = map_inv e g"
  by (simp add: map_inv_def)

lemma entries_data_Cons [simp]:
  "entries_data ((k, c) # xs) = (entries_data xs)(k \<mapsto> (dyn_type c, c_fields c))"
  by (simp add: entries_data_def)

lemma entries_data_dom: "dom (entries_data xs) = fst ` set xs"
proof -
  have "map fst (map (\<lambda>(k, c). (k, (dyn_type c, c_fields c))) xs) = map fst xs"
    by (induction xs) auto
  then have "fst ` set (map (\<lambda>(k, c). (k, (dyn_type c, c_fields c))) xs) = fst ` set xs"
    by (metis set_map)
  then show ?thesis
    unfolding entries_data_def by (simp only: dom_map_of_conv_image_fst)
qed

lemma map_add_upd_absent: "k \<notin> dom n \<Longrightarrow> (m(k \<mapsto> v)) ++ n = m ++ (n(k \<mapsto> v))"
  by (auto simp: fun_eq_iff map_add_def split: option.splits)

lemma Load_loop_entries:
  assumes "unrelated K S" "symmetric K"
  shows "map_inv e g \<Longrightarrow> classes_of g \<subseteq> S \<Longrightarrow> (dyn_type \<circ> snd) ` set xs \<subseteq> S \<Longrightarrow>
     distinct (map fst xs) \<Longrightarrow>
     list_all (\<lambda>(k, c). k = type_str (dyn_type c)) xs \<Longrightarrow>
     inp e = entries_items K xs @ rest \<Longrightarrow>
     \<exists>e' g'. Load_loop K (length xs) e g = Some (e', g') \<and> inp e' = rest \<and>
       log e' = log e \<and> map_inv e' g' \<and> header g' = header g \<and>
       component_data g' = component_data g ++ entries_data xs"
proof (induction xs arbitrary: e g)
  case Nil
  then show ?case by (simp add: entries_items_def entries_data_def)
next
  case (Cons x xs)
  obtain k c where x: "x = (k, c)" by (cases x)
  from Cons.prems(5) x have k: "k = type_str (dyn_type c)"
    and rest_keys: "list_all (\<lambda>(k, c). k = type_str (dyn_type c)) xs" by simp_all
  from Cons.prems(4) x have dk: "distinct (map fst xs)" and nk: "k \<notin> fst ` set xs" by simp_all
  from Cons.prems(3) x have cS: "dyn_type c \<in> S" and xsS: "(dyn_type \<circ> snd) ` set xs \<subseteq> S"
    by simp_all
  let ?e1 = "e\<lparr>inp := Save_of K (dyn_type c) (c_fields c) @ entries_items K xs @ rest\<rparr>"
  have rd: "LoadSTR e = Some (k, ?e1)"
    using Cons.prems(6) by (simp add: LoadSTR_def x entries_items_def)
  have inv1: "map_inv ?e1 g" using Cons.prems(1) by (simp add: map_inv_def)
  from AddComponent_Load_step [OF assms(1) cS Cons.prems(2) assms(2) inv1,
      of "c_fields c" "entries_items K xs @ rest"]
  obtain e2 g2 where s: "AddComponent_Load K (dyn_type c) ?e1 g = Some (e2, g2)"
    "inp e2 = entries_items K xs @ rest" "log e2 = log e" "map_inv e2 g2" "header g2 = header g"
    "component_data g2 = (component_data g)(k \<mapsto> (dyn_type c, c_fields c))"
    "classes_of g2 \<subseteq> S"
    by (auto simp: k)
  from Cons.IH [OF s(4) s(7) xsS dk rest_keys s(2)] obtain e' g' where
    t: "Load_loop K (length xs) e2 g2 = Some (e', g')" "inp e' = rest" "log e' = log e2"
    "map_inv e' g'" "header g' = header g2"
    "component_data g' = component_data g2 ++ entries_data xs"
    by blast
  have known: "LoadCompFromTypeStr K k ?e1 g = AddComponent_Load K (dyn_type c) ?e1 g"
    unfolding k by (rule LoadCompFromTypeStr_known)
  have run: "Load_loop K (length (x # xs)) e g = Some (e', g')"
    using t(1) by (simp add: rd known s(1))
  have "k \<notin> dom (entries_data xs)"
    using nk by (simp only: entries_data_dom) simp
  from map_add_upd_absent [OF this]
  have "component_data g' = component_data g ++ entries_data (x # xs)"
    unfolding t(6) s(6) x entries_data_Cons .
  with run t s show ?case by simp
qed

lemma ctor_data:
  "dom (component_data (snd (GameObject_GameObject K guid a raw e))) = {type_str Transform}"
  by (simp add: ctor_eq Let_def component_data_def entries_data_def)

lemma ctor_classes: "classes_of (snd (GameObject_GameObject K guid a raw e)) = {Transform}"
  by (simp add: ctor_eq Let_def classes_of_def)

lemma ctor_inp: "inp (fst (GameObject_GameObject K guid a raw e)) = inp e"
  by (simp add: ctor_eq Let_def)

lemma data_dom: "dom (component_data g) = fst ` set (m_components g)"
  by (simp only: component_data_def entries_data_dom)

lemma count_round_trip:
  assumes "map_inv e g"
  shows "nat (sint (of_nat (length (m_components g)) :: 32 word)) = length (m_components g)"
proof -
  have "set (map fst (m_components g)) \<subseteq> range type_str"
    using map_inv_keys [OF assms] by (auto simp: list_all_iff)
  from keys_bound [OF map_inv_distinct_keys [OF assms] this]
  have "length (m_components g) < 2 ^ 31" by simp
  then show ?thesis by (rule sint_count)
qed

lemma Load_saved:
  assumes "unrelated K S" and "symmetric K" and "map_inv e g" and "map_inv e1 g0"
    and "classes_of g \<subseteq> S" and "classes_of g0 \<subseteq> S"
    and "inp e1 = written e (Save K e g) @ rest"
  shows "\<exists>e' g'. Load K e1 g0 = Some (e', g') \<and> header g' = header g \<and>
      component_data g' = component_data g0 ++ component_data g \<and> inp e' = rest \<and>
      log e' = log e1 \<and> map_inv e' g'"
proof -
  let ?xs = "m_components g"
  let ?g0 = "g0\<lparr>m_ID := m_ID g, m_name := m_name g, m_isActive := m_isActive g,
            m_hierarchyVisibility := m_hierarchyVisibility g\<rparr>"
  let ?e1 = "e1\<lparr>inp := entries_items K ?xs @ rest\<rparr>"
  from assms(4) have inv0': "map_inv ?e1 ?g0" by (simp add: map_inv_def)
  from assms(6) have cl0: "classes_of ?g0 \<subseteq> S" by (simp add: classes_of_def)
  from assms(5) have clx: "(dyn_type \<circ> snd) ` set ?xs \<subseteq> S" by (simp add: classes_of_def)
  note keys = map_inv_keys [OF assms(3)]
  from Load_loop_entries [OF assms(1,2) inv0' cl0 clx map_inv_distinct_keys [OF assms(3)] keys,
      of rest]
  obtain e' g' where
    t: "Load_loop K (length ?xs) ?e1 ?g0 = Some (e', g')" "inp e' = rest"
    "header g' = header ?g0" "component_data g' = component_data ?g0 ++ entries_data ?xs"
    "log e' = log ?e1" "map_inv e' g'"
    by auto
  have run: "Load K e1 g0 = Some (e', g')"
    using assms(7) t(1)
    by (simp add: Load_def Save_written LoadSTR_def LoadBool_def LoadInt_def
        count_round_trip [OF assms(3)])
  from t(4) have "component_data g' = component_data g0 ++ component_data g"
    by (simp add: component_data_def)
  moreover from t(3) have "header g' = header g" by (simp add: header_def)
  ultimately show ?thesis using run t(2,5,6) by simp
qed

text \<open>
  C1 (amended). Let an object in use own a transform component, let Transform and the
  classes of the object's components not derive from one another (as no classes do when
  no component class derives from another), and let the component classes read back what
  they save. When the object is saved and a freshly constructed object loads the items
  written, the load succeeds, and the new object has the identifier, name, active flag
  and hierarchy visibility of the saved one and, under the same keys, components of the
  same classes with the same fields. The stream is left right behind the items the save
  wrote.
\<close>

theorem Save_Load_round_trip:
  assumes "unrelated K (insert Transform (classes_of g))" and "symmetric K"
    and "map_inv e g" and "HasComponent K Transform g"
    and "GameObject_GameObject K guid a raw e0 = (e1, g0)"
    and "inp e1 = written e (Save K e g) @ rest"
  shows "\<exists>e' g'. Load K e1 g0 = Some (e', g') \<and>
      m_ID g' = m_ID g \<and> m_name g' = m_name g \<and> m_isActive g' = m_isActive g \<and>
      m_hierarchyVisibility g' = m_hierarchyVisibility g \<and>
      fst ` set (m_components g') = fst ` set (m_components g) \<and>
      component_data g' = component_data g \<and>
      inp e' = rest"
proof -
  let ?S = "insert Transform (classes_of g)"
  from ctor_inv [of K guid a raw e0] assms(5) have inv0: "map_inv e1 g0" by simp
  from ctor_classes [of K guid a raw e0] assms(5) have cl0: "classes_of g0 \<subseteq> ?S" by simp
  have cl: "classes_of g \<subseteq> ?S" by blast
  from Load_saved [OF assms(1-3) inv0 cl cl0 assms(6)] obtain e' g' where
    t: "Load K e1 g0 = Some (e', g')" "header g' = header g"
    "component_data g' = component_data g0 ++ component_data g" "inp e' = rest"
    by blast
  note keys = map_inv_keys [OF assms(3)]
  from assms(4) obtain y where y: "y \<in> set (m_components g)" "dynamic_cast K Transform (snd y)"
    by (auto simp: Has_iff)
  from y(1) have "dyn_type (snd y) \<in> ?S" by (force simp: classes_of_def)
  from exact_cast [OF assms(1) _ this, of Transform] y(2)
  have "dyn_type (snd y) = Transform" by simp
  with keys y(1) have "fst y = type_str Transform" by (auto simp: list_all_iff)
  with y(1) have "type_str Transform \<in> fst ` set (m_components g)" by force
  then have "type_str Transform \<in> dom (component_data g)" by (simp only: data_dom)
  moreover have "dom (component_data g0) = {type_str Transform}"
    using ctor_data [of K guid a raw e0] assms(5) by simp
  ultimately have "dom (component_data g0) \<subseteq> dom (component_data g)" by simp
  then have "component_data g0 ++ component_data g = component_data g"
    by (auto simp: fun_eq_iff map_add_def split: option.splits)
  with t(3) have dat: "component_data g' = component_data g" by simp
  then have "dom (component_data g') = dom (component_data g)" by simp
  then have ks: "fst ` set (m_components g') = fst ` set (m_components g)"
    by (simp add: data_dom)
  from t(2) have "m_ID g' = m_ID g" "m_name g' = m_name g" "m_isActive g' = m_isActive g"
      "m_hierarchyVisibility g' = m_hierarchyVisibility g"
    by (simp_all add: header_def)
  with t(1,4) ks dat show ?thesis by blast
qed

subsection \<open>The sample scene: Save followed by Load\<close>

lemma demo_symmetric: "symmetric demo_classes"
  by (simp add: symmetric_def demo_classes_def)

lemma demo_has_transform: "HasComponent demo_classes Transform demo_object"
  by (simp add: HasComponent_def GetComponent_def demo_object_def demo_component_def
      dynamic_cast_def)

lemma demo_bare_components:
  "m_components demo_bare = [(''Camera'', demo_component 1 Camera 60)]"
  by (simp add: demo_bare_def RemoveComponent_def demo_object_def demo_component_def
      dynamic_cast_def demo_classes_def)

lemma demo_bare_inv: "map_inv demo_engine demo_bare"
  by (simp add: map_inv_def demo_bare_components demo_component_def demo_engine_def)


lemma demo_object_facts:
    "m_ID demo_object = ''0451''" "m_name demo_object = ''Player''"
    "m_isActive demo_object" "\<not> m_hierarchyVisibility demo_object"
    "fst ` set (m_components demo_object) = {''Camera'', ''Transform''}"
    "component_data demo_object ''Camera'' = Some (Camera, 60)"
    "component_data demo_object ''Transform'' = Some (Transform, 3)"
    by (simp_all add: demo_object_def demo_component_def component_data_def entries_data_def)


lemma demo_renderers_inv: "map_inv (fst demo_renderers) (snd demo_renderers)"
proof -
  let ?s0 = "GameObject_GameObject demo_hierarchy ''renderers'' 10 demo_raw demo_engine"
  let ?s1 = "AddComponent demo_hierarchy MeshRenderer (fst ?s0) (snd ?s0)"
  let ?s2 = "AddComponent demo_hierarchy LineRenderer (fst (snd ?s1)) (snd (snd ?s1))"
  have "map_inv (fst ?s0) (snd ?s0)" by (rule ctor_inv)
  then have "map_inv (fst (snd ?s1)) (snd (snd ?s1))" by (rule map_inv_AddComponent)
  then have "map_inv (fst (snd ?s2)) (snd (snd ?s2))" by (rule map_inv_AddComponent)
  then show ?thesis by (simp add: demo_renderers_def split_beta)
qed

lemma demo_renderers_classes:
  "map (\<lambda>(k, c). (k, dyn_type c)) (m_components (snd demo_renderers)) =
     [(''LineRenderer'', LineRenderer), (''MeshRenderer'', MeshRenderer),
      (''Transform'', Transform)]"
  by (simp add: demo_renderers_def ctor_eq Let_def split_beta AddComponent_def HasComponent_def
      GetComponent_def dynamic_cast_def demo_hierarchy_def demo_classes_def)

lemma demo_renderers_has_transform: "HasComponent demo_hierarchy Transform (snd demo_renderers)"
  by (simp add: demo_renderers_def ctor_eq Let_def split_beta AddComponent_def HasComponent_def
      GetComponent_def dynamic_cast_def demo_hierarchy_def demo_classes_def)

lemma demo_hierarchy_symmetric: "symmetric demo_hierarchy"
  by (simp add: symmetric_def demo_hierarchy_def demo_classes_def)

lemma demo_renderers_saved:
  "written (fst demo_renderers) (Save demo_hierarchy (fst demo_renderers) (snd demo_renderers)) =
     [SStr ''renderers'', SStr ''GameObject'', SBool True, SBool True, SInt 3,
      SStr ''LineRenderer'', SInt 0, SStr ''MeshRenderer'', SInt 0, SStr ''Transform'', SInt 0]"
  by (simp add: Save_written header_def Initialize_def entries_items_def demo_renderers_def
      ctor_eq Let_def split_beta AddComponent_def HasComponent_def GetComponent_def
      dynamic_cast_def demo_hierarchy_def demo_classes_def)

lemma demo_renderers_loaded:
  "map_option (\<lambda>(e', g'). map (\<lambda>(k, c). (k, dyn_type c)) (m_components g'))
     (Load demo_hierarchy
        (fst (demo_fresh_h
           [SStr ''renderers'', SStr ''GameObject'', SBool True, SBool True, SInt 3,
            SStr ''LineRenderer'', SInt 0, SStr ''MeshRenderer'', SInt 0,
            SStr ''Transform'', SInt 0]))
        (snd (demo_fresh_h
           [SStr ''renderers'', SStr ''GameObject'', SBool True, SBool True, SInt 3,
            SStr ''LineRenderer'', SInt 0, SStr ''MeshRenderer'', SInt 0,
            SStr ''Transform'', SInt 0]))) =
   Some [(''LineRenderer'', LineRenderer), (''Transform'', Transform)]"
  by (simp add: demo_fresh_h_def ctor_eq Let_def split_beta Load_def LoadSTR_def LoadBool_def
      LoadInt_def numeral_3_eq_3 LoadCompFromTypeStr_def dispatch_table_def AddComponent_Load_def
      call_Load_def AddComponent_def HasComponent_def GetComponent_def dynamic_cast_def
      demo_hierarchy_def demo_classes_def demo_engine_def)

theorem Save_Load_round_trip_witness:
  "unrelated demo_classes (insert Transform (classes_of demo_object)) \<and>
   symmetric demo_classes \<and> map_inv demo_engine demo_object \<and>
   HasComponent demo_classes Transform demo_object \<and>
   map_option
     (\<lambda>(e', g'). (m_ID g', m_name g', m_isActive g', m_hierarchyVisibility g',
                  fst ` set (m_components g'), component_data g' ''Camera'',
                  component_data g' ''Transform'', inp e'))
     (Load demo_classes
        (fst (demo_fresh (written demo_engine (Save demo_classes demo_engine demo_object))))
        (snd (demo_fresh (written demo_engine (Save demo_classes demo_engine demo_object))))) =
   Some (''0451'', ''Player'', True, False, {''Camera'', ''Transform''},
         Some (Camera, 60), Some (Transform, 3), [])"
proof -
  let ?w = "written demo_engine (Save demo_classes demo_engine demo_object)"
  have u: "unrelated demo_classes (insert Transform (classes_of demo_object))"
    by (simp add: unrelated_def demo_classes_def)
  have c: "GameObject_GameObject demo_classes ''fresh'' 8 demo_raw (demo_engine\<lparr>inp := ?w\<rparr>) =
      (fst (demo_fresh ?w), snd (demo_fresh ?w))"
    by (simp add: demo_fresh_def)
  have i: "inp (fst (demo_fresh ?w)) = ?w @ []"
    by (simp add: demo_fresh_def ctor_inp)
  from Save_Load_round_trip [OF u demo_symmetric demo_inv demo_has_transform c i]
  obtain e' g' where
    t: "Load demo_classes (fst (demo_fresh ?w)) (snd (demo_fresh ?w)) = Some (e', g')"
    "m_ID g' = m_ID demo_object" "m_name g' = m_name demo_object"
    "m_isActive g' = m_isActive demo_object"
    "m_hierarchyVisibility g' = m_hierarchyVisibility demo_object"
    "fst ` set (m_components g') = fst ` set (m_components demo_object)"
    "component_data g' = component_data demo_object" "inp e' = []"
    by blast
  have "map_option
     (\<lambda>(e', g'). (m_ID g', m_name g', m_isActive g', m_hierarchyVisibility g',
                  fst ` set (m_components g'), component_data g' ''Camera'',
                  component_data g' ''Transform'', inp e'))
     (Load demo_classes (fst (demo_fresh ?w)) (snd (demo_fresh ?w))) =
   Some (''0451'', ''Player'', True, False, {''Camera'', ''Transform''},
         Some (Camera, 60), Some (Transform, 3), [])"
    unfolding t(1) by (simp add: t(2-8) demo_object_facts)
  then show ?thesis
    using u demo_symmetric demo_inv demo_has_transform by simp
qed

text \<open>
  Without either condition the components change. An object whose transform was removed
  comes back with a transform. Where a LineRenderer is a MeshRenderer, an object that owns
  one of each beside its transform comes back without the mesh renderer: its entry is
  loaded into the line renderer that the entry before it created.
\<close>

theorem Save_Load_changes_components_counterexample:
  "(symmetric demo_classes \<and> flat demo_classes \<and> map_inv demo_engine demo_bare \<and>
    fst ` set (m_components demo_bare) = {''Camera''} \<and>
    map_option (\<lambda>(e', g'). fst ` set (m_components g'))
      (Load demo_classes
         (fst (demo_fresh (written demo_engine (Save demo_classes demo_engine demo_bare))))
         (snd (demo_fresh (written demo_engine (Save demo_classes demo_engine demo_bare))))) =
      Some {''Camera'', ''Transform''}) \<and>
   (symmetric demo_hierarchy \<and> map_inv (fst demo_renderers) (snd demo_renderers) \<and>
    HasComponent demo_hierarchy Transform (snd demo_renderers) \<and>
    map (\<lambda>(k, c). (k, dyn_type c)) (m_components (snd demo_renderers)) =
      [(''LineRenderer'', LineRenderer), (''MeshRenderer'', MeshRenderer),
       (''Transform'', Transform)] \<and>
    map_option (\<lambda>(e', g'). map (\<lambda>(k, c). (k, dyn_type c)) (m_components g'))
      (Load demo_hierarchy
         (fst (demo_fresh_h (written (fst demo_renderers)
            (Save demo_hierarchy (fst demo_renderers) (snd demo_renderers)))))
         (snd (demo_fresh_h (written (fst demo_renderers)
            (Save demo_hierarchy (fst demo_renderers) (snd demo_renderers)))))) =
      Some [(''LineRenderer'', LineRenderer), (''Transform'', Transform)])"
proof -
  let ?w = "written demo_engine (Save demo_classes demo_engine demo_bare)"
  let ?S = "UNIV :: ctype set"
  have inv0: "map_inv (fst (demo_fresh ?w)) (snd (demo_fresh ?w))"
    unfolding demo_fresh_def by (rule ctor_inv)
  have i: "inp (fst (demo_fresh ?w)) = ?w @ []"
    by (simp add: demo_fresh_def ctor_inp)
  have u: "unrelated demo_classes ?S" by (rule flat_unrelated [OF demo_flat])
  from Load_saved [OF u demo_symmetric demo_bare_inv inv0 _ _ i]
  obtain e' g' where
    t: "Load demo_classes (fst (demo_fresh ?w)) (snd (demo_fresh ?w)) = Some (e', g')"
    "component_data g' = component_data (snd (demo_fresh ?w)) ++ component_data demo_bare"
    by auto
  have bare: "fst ` set (m_components demo_bare) = {''Camera''}"
    by (simp add: demo_bare_components)
  have fresh: "dom (component_data (snd (demo_fresh ?w))) = {''Transform''}"
    unfolding demo_fresh_def using ctor_data [of demo_classes "''fresh''" 8] by simp
  have "fst ` set (m_components g') = dom (component_data g')"
    by (simp only: data_dom)
  also have "\<dots> = dom (component_data demo_bare) \<union> dom (component_data (snd (demo_fresh ?w)))"
    unfolding t(2) by (rule dom_map_add)
  also have "\<dots> = {''Camera''} \<union> {''Transform''}"
    unfolding fresh by (simp only: data_dom bare)
  finally have "fst ` set (m_components g') = {''Camera'', ''Transform''}"
    by (simp add: insert_commute)
  then have a: "map_option (\<lambda>(e', g'). fst ` set (m_components g'))
     (Load demo_classes (fst (demo_fresh ?w)) (snd (demo_fresh ?w))) =
     Some {''Camera'', ''Transform''}"
    unfolding t(1) by simp
  have b: "map_option (\<lambda>(e', g'). map (\<lambda>(k, c). (k, dyn_type c)) (m_components g'))
      (Load demo_hierarchy
         (fst (demo_fresh_h (written (fst demo_renderers)
            (Save demo_hierarchy (fst demo_renderers) (snd demo_renderers)))))
         (snd (demo_fresh_h (written (fst demo_renderers)
            (Save demo_hierarchy (fst demo_renderers) (snd demo_renderers)))))) =
      Some [(''LineRenderer'', LineRenderer), (''Transform'', Transform)]"
    unfolding demo_renderers_saved by (rule demo_renderers_loaded)
  from a bare demo_symmetric demo_flat demo_bare_inv
  have A: "symmetric demo_classes \<and> flat demo_classes \<and> map_inv demo_engine demo_bare \<and>
    fst ` set (m_components demo_bare) = {''Camera''} \<and>
    map_option (\<lambda>(e', g'). fst ` set (m_components g'))
      (Load demo_classes (fst (demo_fresh ?w)) (snd (demo_fresh ?w))) =
      Some {''Camera'', ''Transform''}"
    by simp
  from b demo_hierarchy_symmetric demo_renderers_inv demo_renderers_has_transform
    demo_renderers_classes
  show ?thesis by (intro conjI A [THEN conjunct1] A [THEN conjunct2, THEN conjunct1]
        A [THEN conjunct2, THEN conjunct2, THEN conjunct1]
        A [THEN conjunct2, THEN conjunct2, THEN conjunct2, THEN conjunct1]
        A [THEN conjunct2, THEN conjunct2, THEN conjunct2, THEN conjunct2])
qed

end
